theory Spec2Isabelle
  imports Complex_Main "HOL-Library.Word" "HOL-Library.Multiset" "HOL-Library.Sublist"
begin

section \<open>Error codes and scalar types\<close>

text \<open>
  The functions of \<^verbatim>\<open>lib/table.c\<close> return 0 or one of the \<^verbatim>\<open>MSP_ERR_*\<close> codes.
  A failing \<^verbatim>\<open>assert\<close> aborts the process; a read or write outside a buffer is
  undefined behaviour. Both are results of their own here, so that no branch of the source
  is lost. Allocation never fails in this development: every \<^verbatim>\<open>malloc\<close>,
  \<^verbatim>\<open>realloc\<close> and pool \<^verbatim>\<open>acquire\<close> succeeds, hence
  \<^verbatim>\<open>MSP_ERR_NO_MEMORY\<close> is declared but never returned.

  A \<^verbatim>\<open>double\<close> is a rational number: the code only copies and compares
  coordinates and times (\<^verbatim>\<open><\<close>, \<^verbatim>\<open><=\<close>, \<^verbatim>\<open>==\<close>, \<^verbatim>\<open>GSL_MIN\<close>), it never
  computes with them, and NaN is not considered. \<^verbatim>\<open>node_id_t\<close> and
  \<^verbatim>\<open>site_id_t\<close> are signed 32-bit integers that are compared and used as indices
  only; they are integers here. Row counts and lengths (\<^verbatim>\<open>size_t\<close>,
  \<^verbatim>\<open>list_len_t\<close>) are natural numbers. The overlap counts are \<^verbatim>\<open>uint32_t\<close>
  values that the code subtracts from; they are 32-bit words.
\<close>

datatype error =
    MSP_ERR_NO_MEMORY
  | MSP_ERR_BAD_PARAM_VALUE
  | MSP_ERR_OUT_OF_BOUNDS
  | MSP_ERR_BAD_SAMPLES
  | MSP_ERR_DUPLICATE_SAMPLE
  | MSP_ERR_RECORDS_NOT_TIME_SORTED
  | MSP_ERR_GENERIC
  | ASSERTION_FAILED
  | MEMORY_FAULT

type_synonym node_id_t = int
type_synonym site_id_t = int

text \<open>
  Modelled from the spec: the \<^verbatim>\<open>IS_SAMPLE\<close> flag bit of a node
  (\<^verbatim>\<open>MSP_NODE_IS_SAMPLE\<close> is declared in \<^verbatim>\<open>msprime.h\<close>, which is not among the
  sources). It is the lowest bit of the flags.
\<close>

definition MSP_NODE_IS_SAMPLE :: "32 word" where
  "MSP_NODE_IS_SAMPLE = 1"

section \<open>Column tables\<close>

subsection \<open>Node table\<close>

text \<open>
  A row of the node table. The table keeps the names in one payload buffer with a
  \<^verbatim>\<open>name_length\<close> column; row \<open>j\<close> owns the slice that starts at the sum of the
  lengths before it. Here every row carries its own slice, \<^verbatim>\<open>name_length\<close> is its
  length and \<^verbatim>\<open>total_name_length\<close> the sum of the lengths.
\<close>

record node_t =
  node_flags :: "32 word"
  node_time :: rat
  node_population :: int
  node_name :: string

text \<open>
  The node table: its rows \<open>0 \<dots> num_rows - 1\<close> and the two capacities that
  \<^verbatim>\<open>node_table_add_row_internal\<close> asserts on. A column is \<^verbatim>\<open>NULL\<close> exactly when
  its capacity is 0 (\<^verbatim>\<open>node_table_alloc\<close> zeroes the struct and only
  \<^verbatim>\<open>expand_column\<close> sets a pointer).
\<close>

record node_table_t =
  nt_rows :: "node_t list"
  nt_max_rows :: nat
  nt_max_total_name_length :: nat

definition nt_total_name_length :: "node_t list \<Rightarrow> nat" where
  "nt_total_name_length rows = sum_list (map (\<lambda>r. length (node_name r)) rows)"

definition node_table_reset :: "node_table_t \<Rightarrow> node_table_t" where
  "node_table_reset t = t\<lparr>nt_rows := []\<rparr>"

text \<open>\<^verbatim>\<open>node_table_add_row_internal\<close>: two assertions on the capacities, then the append.\<close>

definition node_table_add_row_internal :: "node_table_t \<Rightarrow> node_t \<Rightarrow> error + node_table_t" where
  "node_table_add_row_internal t r =
     (if \<not> length (nt_rows t) < nt_max_rows t then Inl ASSERTION_FAILED
      else if \<not> nt_total_name_length (nt_rows t) + length (node_name r)
                 < nt_max_total_name_length t then Inl ASSERTION_FAILED
      else Inr (t\<lparr>nt_rows := nt_rows t @ [r]\<rparr>))"

subsection \<open>Edgeset table\<close>

text \<open>
  The simplifier reads its input rows from the very buffers it writes its output rows
  to, so the edgeset table is kept as the source has it: the columns as they lie in
  memory, beyond \<^verbatim>\<open>num_rows\<close> too, and the flattened children payload with its length
  column. The length of a list is the initialised extent of the buffer.
\<close>

record edgeset_table_t =
  et_num_rows :: nat
  et_total_children_length :: nat
  et_left :: "rat list"
  et_right :: "rat list"
  et_parent :: "node_id_t list"
  et_children :: "node_id_t list"
  et_children_length :: "nat list"

text \<open>Writing one cell, and a run of cells, at an index not beyond the extent.\<close>

definition put_cell :: "'a list \<Rightarrow> nat \<Rightarrow> 'a \<Rightarrow> 'a list" where
  "put_cell xs i v = take i xs @ [v] @ drop (Suc i) xs"

definition put_cells :: "'a list \<Rightarrow> nat \<Rightarrow> 'a list \<Rightarrow> 'a list" where
  "put_cells xs i vs = take i xs @ vs @ drop (i + length vs) xs"

definition edgeset_table_reset :: "edgeset_table_t \<Rightarrow> edgeset_table_t" where
  "edgeset_table_reset t = t\<lparr>et_num_rows := 0, et_total_children_length := 0\<rparr>"

text \<open>
  \<^verbatim>\<open>edgeset_table_add_row\<close>: an empty children list is a bad parameter; the buffers
  grow as needed (growing keeps their contents), then the row is written at
  \<^verbatim>\<open>num_rows\<close> and its children at \<^verbatim>\<open>total_children_length\<close>.
\<close>

definition edgeset_table_add_row ::
  "edgeset_table_t \<Rightarrow> rat \<Rightarrow> rat \<Rightarrow> node_id_t \<Rightarrow> node_id_t list \<Rightarrow> error + edgeset_table_t" where
  "edgeset_table_add_row t left right parent children =
     (if length children = 0 then Inl MSP_ERR_BAD_PARAM_VALUE
      else Inr (t\<lparr>
        et_left := put_cell (et_left t) (et_num_rows t) left,
        et_right := put_cell (et_right t) (et_num_rows t) right,
        et_parent := put_cell (et_parent t) (et_num_rows t) parent,
        et_children := put_cells (et_children t) (et_total_children_length t) children,
        et_children_length := put_cell (et_children_length t) (et_num_rows t) (length children),
        et_total_children_length := et_total_children_length t + length children,
        et_num_rows := Suc (et_num_rows t)\<rparr>))"

subsection \<open>Site and mutation tables\<close>

record site_t =
  site_position :: rat
  site_ancestral_state :: string

record mutation_t =
  mut_site :: site_id_t
  mut_node :: node_id_t
  mut_derived_state :: string


section \<open>The table sorter\<close>

text \<open>
  \<^verbatim>\<open>qsort\<close> belongs to the C library, not to this repository, and the C standard leaves
  open in which order it puts elements that compare equal. So the three calls that sort
  rows take the sorting function as a parameter, of which only the contract of
  \<^verbatim>\<open>qsort\<close> is assumed where it is needed: the result is a permutation of the array in
  the order of the comparison function.
\<close>

definition qsort_spec :: "('a \<Rightarrow> 'a \<Rightarrow> int) \<Rightarrow> ('a list \<Rightarrow> 'a list) \<Rightarrow> bool" where
  "qsort_spec cmp qs \<longleftrightarrow>
     (\<forall>xs. mset (qs xs) = mset xs \<and> sorted_wrt (\<lambda>a b. cmp a b \<le> 0) (qs xs))"

text \<open>
  The sort key of an edgeset row: \<^verbatim>\<open>children\<close> points into the copy of the children
  payload and is the slice of the row here; \<^verbatim>\<open>children_length\<close> is its length.
\<close>

record edgeset_sort_t =
  srt_left :: rat
  srt_right :: rat
  srt_parent :: node_id_t
  srt_children :: "node_id_t list"
  srt_time :: rat

text \<open>The site and the mutation as the sorter holds them; a site carries its old id.\<close>

record site_sort_t =
  ss_id :: nat
  ss_position :: rat
  ss_ancestral_state :: string

definition cmp_site :: "site_sort_t \<Rightarrow> site_sort_t \<Rightarrow> int" where
  "cmp_site a b =
     (if ss_position a > ss_position b then 1 else 0) - (if ss_position a < ss_position b then 1 else 0)"

definition cmp_mutation :: "mutation_t \<Rightarrow> mutation_t \<Rightarrow> int" where
  "cmp_mutation a b = (if mut_site a > mut_site b then 1 else 0) - (if mut_site a < mut_site b then 1 else 0)"

definition cmp_edgeset :: "edgeset_sort_t \<Rightarrow> edgeset_sort_t \<Rightarrow> int" where
  "cmp_edgeset a b =
     (let ret = (if srt_time a > srt_time b then 1 else 0) - (if srt_time a < srt_time b then 1 else (0::int))
      in if ret = 0 then
           (let ret = (if srt_parent a > srt_parent b then 1 else 0)
                      - (if srt_parent a < srt_parent b then 1 else (0::int))
            in if ret = 0
               then (if srt_left a > srt_left b then 1 else 0) - (if srt_left a < srt_left b then 1 else 0)
               else ret)
         else ret)"

text \<open>
  The first loop of \<^verbatim>\<open>table_sorter_sort_edgesets\<close>, from row \<open>j\<close> on with \<open>k\<close> rows to
  go: the row is read, its parent is checked against the number of nodes, and the time of
  the parent is looked up. A parent below 0 passes the check and is a read outside the
  time column. \<open>mem\<close> is the copy of the children payload.
\<close>

fun sorter_read_edgesets ::
  "node_t list \<Rightarrow> edgeset_table_t \<Rightarrow> node_id_t list \<Rightarrow> nat \<Rightarrow> nat \<Rightarrow> nat
     \<Rightarrow> error + edgeset_sort_t list" where
  "sorter_read_edgesets rows t mem 0 j off = Inr []"
| "sorter_read_edgesets rows t mem (Suc k) j off =
     (if j \<ge> length (et_left t) \<or> j \<ge> length (et_right t) \<or> j \<ge> length (et_parent t)
         \<or> j \<ge> length (et_children_length t) then Inl MEMORY_FAULT
      else if et_parent t ! j \<ge> int (length rows) then Inl MSP_ERR_OUT_OF_BOUNDS
      else if et_parent t ! j < 0 then Inl MEMORY_FAULT
      else (case sorter_read_edgesets rows t mem k (Suc j) (off + et_children_length t ! j) of
              Inl e \<Rightarrow> Inl e
            | Inr es \<Rightarrow>
               Inr (\<lparr>srt_left = et_left t ! j, srt_right = et_right t ! j,
                     srt_parent = et_parent t ! j,
                     srt_children = take (et_children_length t ! j) (drop off mem),
                     srt_time = node_time (rows ! nat (et_parent t ! j))\<rparr> # es)))"

text \<open>
  The second loop writes the sorted rows back from row 0 and offset 0, each with its
  children sorted by \<^verbatim>\<open>cmp_node_id\<close> (equal node ids are equal, so the result is that
  of \<^const>\<open>sort\<close>); the two counters of the table stay as they are.
\<close>

definition sorter_write_row :: "edgeset_table_t \<Rightarrow> edgeset_sort_t \<Rightarrow> edgeset_table_t" where
  "sorter_write_row t e = t\<lparr>
        et_left := put_cell (et_left t) (et_num_rows t) (srt_left e),
        et_right := put_cell (et_right t) (et_num_rows t) (srt_right e),
        et_parent := put_cell (et_parent t) (et_num_rows t) (srt_parent e),
        et_children := put_cells (et_children t) (et_total_children_length t) (sort (srt_children e)),
        et_children_length := put_cell (et_children_length t) (et_num_rows t) (length (srt_children e)),
        et_total_children_length := et_total_children_length t + length (srt_children e),
        et_num_rows := Suc (et_num_rows t)\<rparr>"

text \<open>
  \<^verbatim>\<open>table_sorter_sort_edgesets\<close>. The copy of the payload reads
  \<^verbatim>\<open>total_children_length\<close> entries; the slices of the rows lie in the copy when the
  lengths of the rows sum to no more than that.
\<close>

definition table_sorter_sort_edgesets ::
  "(edgeset_sort_t list \<Rightarrow> edgeset_sort_t list) \<Rightarrow> node_t list \<Rightarrow> edgeset_table_t
     \<Rightarrow> error + edgeset_table_t" where
  "table_sorter_sort_edgesets qsort_edgesets rows t =
     (if et_total_children_length t > length (et_children t) then Inl MEMORY_FAULT
      else (case sorter_read_edgesets rows t (take (et_total_children_length t) (et_children t))
                   (et_num_rows t) 0 0 of
              Inl e \<Rightarrow> Inl e
            | Inr es \<Rightarrow>
               if sum_list (take (et_num_rows t) (et_children_length t)) > et_total_children_length t
               then Inl MEMORY_FAULT
               else Inr ((foldl sorter_write_row (edgeset_table_reset t) (qsort_edgesets es))
                          \<lparr>et_num_rows := et_num_rows t,
                           et_total_children_length := et_total_children_length t\<rparr>)))"

text \<open>
  \<^verbatim>\<open>table_sorter_sort_sites\<close>: the sites are sorted by position, and
  \<^verbatim>\<open>site_id_map\<close> sends the old id of a site to its new one. The map is not
  initialised; an entry that no sorted site writes is 0 here.
\<close>

definition sorter_site_id_map :: "site_sort_t list \<Rightarrow> nat list" where
  "sorter_site_id_map sorted_sites =
     fold (\<lambda>j m. m[ss_id (sorted_sites ! j) := j]) [0 ..< length sorted_sites]
       (replicate (length sorted_sites) 0)"

definition table_sorter_sort_sites ::
  "(site_sort_t list \<Rightarrow> site_sort_t list) \<Rightarrow> site_t list \<Rightarrow> site_t list \<times> nat list" where
  "table_sorter_sort_sites qsort_sites sites_in =
     (let sorted_sites = qsort_sites
            (map (\<lambda>j. \<lparr>ss_id = j, ss_position = site_position (sites_in ! j),
                       ss_ancestral_state = site_ancestral_state (sites_in ! j)\<rparr>)
               [0 ..< length sites_in])
      in (map (\<lambda>x. \<lparr>site_position = ss_position x, site_ancestral_state = ss_ancestral_state x\<rparr>)
            sorted_sites,
          sorter_site_id_map sorted_sites))"

text \<open>
  \<^verbatim>\<open>table_sorter_sort_mutations\<close>: every mutation is checked for its site and its node
  and gets its new site id before the mutations are sorted by site. A site below 0 passes
  the check and is a read outside \<^verbatim>\<open>site_id_map\<close>.
\<close>

fun sorter_read_mutations ::
  "nat \<Rightarrow> nat \<Rightarrow> nat list \<Rightarrow> mutation_t list \<Rightarrow> error + mutation_t list" where
  "sorter_read_mutations num_sites num_nodes site_id_map [] = Inr []"
| "sorter_read_mutations num_sites num_nodes site_id_map (m # ms) =
     (if mut_site m \<ge> int num_sites then Inl MSP_ERR_OUT_OF_BOUNDS
      else if mut_node m \<ge> int num_nodes then Inl MSP_ERR_OUT_OF_BOUNDS
      else if mut_site m < 0 \<or> nat (mut_site m) \<ge> length site_id_map then Inl MEMORY_FAULT
      else (case sorter_read_mutations num_sites num_nodes site_id_map ms of
              Inl e \<Rightarrow> Inl e
            | Inr ms' \<Rightarrow> Inr (m\<lparr>mut_site := int (site_id_map ! nat (mut_site m))\<rparr> # ms')))"

definition table_sorter_sort_mutations ::
  "(mutation_t list \<Rightarrow> mutation_t list) \<Rightarrow> nat \<Rightarrow> nat \<Rightarrow> nat list \<Rightarrow> mutation_t list
     \<Rightarrow> error + mutation_t list" where
  "table_sorter_sort_mutations qsort_mutations num_sites num_nodes site_id_map mutations_in =
     (case sorter_read_mutations num_sites num_nodes site_id_map mutations_in of
        Inl e \<Rightarrow> Inl e
      | Inr ms \<Rightarrow> Inr (qsort_mutations ms))"

text \<open>
  \<^verbatim>\<open>sort_tables\<close>. The site and the mutation table are optional (\<^verbatim>\<open>NULL\<close> is
  \<open>None\<close>); a site table without a mutation table is a bad parameter, and without a site
  table the mutations are left alone. The node table is only read, the migration table is
  not used.
\<close>

definition sort_tables ::
  "(edgeset_sort_t list \<Rightarrow> edgeset_sort_t list) \<Rightarrow> (site_sort_t list \<Rightarrow> site_sort_t list)
     \<Rightarrow> (mutation_t list \<Rightarrow> mutation_t list)
     \<Rightarrow> node_t list \<Rightarrow> edgeset_table_t \<Rightarrow> site_t list option \<Rightarrow> mutation_t list option
     \<Rightarrow> error + edgeset_table_t \<times> site_t list option \<times> mutation_t list option" where
  "sort_tables qsort_edgesets qsort_sites qsort_mutations rows t sites_in mutations_in =
     (if sites_in \<noteq> None \<and> mutations_in = None then Inl MSP_ERR_BAD_PARAM_VALUE
      else (case table_sorter_sort_edgesets qsort_edgesets rows t of
              Inl e \<Rightarrow> Inl e
            | Inr t' \<Rightarrow>
               (case sites_in of
                  None \<Rightarrow> Inr (t', sites_in, mutations_in)
                | Some ss \<Rightarrow>
                   (let sorted_sites = table_sorter_sort_sites qsort_sites ss
                    in (case table_sorter_sort_mutations qsort_mutations (length ss) (length rows)
                                (snd sorted_sites) (the mutations_in) of
                          Inl e \<Rightarrow> Inl e
                        | Inr ms \<Rightarrow> Inr (t', Some (fst sorted_sites), Some ms))))))"

section \<open>The simplifier\<close>

subsection \<open>State\<close>

text \<open>
  A segment of a chain. The \<^verbatim>\<open>next\<close> pointer is the rest of the list: chains are
  \<^verbatim>\<open>NULL\<close>-terminated, a chain is owned by exactly one holder (an entry of the ancestor
  map, an entry of the merge queue, or the chain \<^verbatim>\<open>merge_ancestors\<close> is building), and
  the code cuts a chain before it hands a part of it to another holder. A \<^verbatim>\<open>NULL\<close>
  chain is the empty list.
\<close>

record simplify_segment_t =
  seg_left :: rat
  seg_right :: rat
  seg_node :: node_id_t

record overlap_count_t =
  oc_start :: rat
  oc_count :: "32 word"

text \<open>The one-slot squash buffer \<^verbatim>\<open>last_edgeset\<close>; \<^verbatim>\<open>children_length\<close> is the length of the list.\<close>

record edgeset_t =
  es_left :: rat
  es_right :: rat
  es_parent :: node_id_t
  es_children :: "node_id_t list"

text \<open>
  An entry of the merge queue points to the head of a chain, which is never \<^verbatim>\<open>NULL\<close>
  (\<^verbatim>\<open>simplifier_priority_queue_insert\<close> asserts it): the head segment and the rest of
  the chain.
\<close>

type_synonym queue_item = "simplify_segment_t \<times> simplify_segment_t list"

text \<open>
  Modelled from the spec: the ordered map of overlap counts and the ordered merge queue
  (\<^verbatim>\<open>avl.h\<close>) and the object pools (\<^verbatim>\<open>object_heap.h\<close>) are not among the sources.
  Both AVL trees are lists in ascending order of the tree's comparison function, where
  \<^verbatim>\<open>head\<close> is the first element and \<^verbatim>\<open>next\<close> the successor in the list;
  \<^verbatim>\<open>avl_insert_node\<close> returns \<^verbatim>\<open>NULL\<close> for a key that is already in the tree. Of
  the segment pool only the number of segments handed out is kept, which
  \<^verbatim>\<open>simplifier_check_state\<close> asserts on. The number of AVL nodes handed out always is
  the size of the two trees, so that assertion of \<^verbatim>\<open>simplifier_check_state\<close> cannot
  fail and is left out.
\<close>

record simplifier_t =
  samples :: "node_id_t list"
  sequence_length :: rat
  input_nodes :: "node_t list"
  nodes :: node_table_t
  edgesets :: edgeset_table_t
  sites :: "site_t list"
  mutations :: "mutation_t list"
  ancestor_map :: "simplify_segment_t list list"
  merge_queue :: "queue_item list"
  overlap_counts :: "overlap_count_t list"
  last_edgeset :: edgeset_t
  segment_heap_allocated :: nat

subsection \<open>Comparison functions\<close>

definition cmp_node_id :: "node_id_t \<Rightarrow> node_id_t \<Rightarrow> int" where
  "cmp_node_id a b = (if a > b then 1 else 0) - (if a < b then 1 else 0)"

definition cmp_overlap_count :: "overlap_count_t \<Rightarrow> overlap_count_t \<Rightarrow> int" where
  "cmp_overlap_count a b =
     (if oc_start a > oc_start b then 1 else 0) - (if oc_start a < oc_start b then 1 else 0)"

definition cmp_segment_queue :: "simplify_segment_t \<Rightarrow> simplify_segment_t \<Rightarrow> int" where
  "cmp_segment_queue a b =
     (let ret = (if seg_left a > seg_left b then 1 else 0) - (if seg_left a < seg_left b then 1 else (0::int))
      in if ret = 0
         then (if seg_node a > seg_node b then 1 else 0) - (if seg_node a < seg_node b then 1 else 0)
         else ret)"

subsection \<open>Chains, the queue and the overlap counts\<close>

text \<open>The two assertions that \<^verbatim>\<open>simplifier_check_state\<close> makes along a chain.\<close>

fun chain_sorted :: "simplify_segment_t list \<Rightarrow> bool" where
  "chain_sorted [] = True"
| "chain_sorted [u] = (seg_left u < seg_right u)"
| "chain_sorted (u # v # vs) =
     (seg_left u < seg_right u \<and> seg_right u \<le> seg_left v \<and> chain_sorted (v # vs))"

definition simplifier_check_state :: "simplifier_t \<Rightarrow> bool" where
  "simplifier_check_state s =
     (list_all chain_sorted (ancestor_map s)
      \<and> list_all (\<lambda>(x, xs). chain_sorted (x # xs)) (merge_queue s)
      \<and> sum_list (map length (ancestor_map s)) + sum_list (map (\<lambda>(x, xs). Suc (length xs)) (merge_queue s))
          = segment_heap_allocated s)"

text \<open>
  \<^verbatim>\<open>simplifier_priority_queue_insert\<close>: the insertion keeps the order of
  \<^verbatim>\<open>cmp_segment_queue\<close> on the head segments; a head that compares equal to one in the
  queue makes \<^verbatim>\<open>avl_insert_node\<close> return \<^verbatim>\<open>NULL\<close>, and the assertion fails.
\<close>

fun simplifier_priority_queue_insert :: "queue_item \<Rightarrow> queue_item list \<Rightarrow> error + queue_item list" where
  "simplifier_priority_queue_insert u [] = Inr [u]"
| "simplifier_priority_queue_insert u (c # cs) =
     (if cmp_segment_queue (fst u) (fst c) < 0 then Inr (u # c # cs)
      else if cmp_segment_queue (fst u) (fst c) = 0 then Inl ASSERTION_FAILED
      else (case simplifier_priority_queue_insert u cs of
              Inl e \<Rightarrow> Inl e
            | Inr cs' \<Rightarrow> Inr (c # cs')))"

definition avl_search_overlap :: "rat \<Rightarrow> overlap_count_t list \<Rightarrow> bool" where
  "avl_search_overlap x ocs = list_ex (\<lambda>a. oc_start a = x) ocs"

definition simplifier_insert_overlap_count ::
  "rat \<Rightarrow> 32 word \<Rightarrow> overlap_count_t list \<Rightarrow> error + overlap_count_t list" where
  "simplifier_insert_overlap_count x v ocs =
     (if avl_search_overlap x ocs then Inl ASSERTION_FAILED
      else Inr (takeWhile (\<lambda>a. oc_start a < x) ocs
                @ [\<lparr>oc_start = x, oc_count = v\<rparr>]
                @ dropWhile (\<lambda>a. oc_start a < x) ocs))"

text \<open>
  \<^verbatim>\<open>simplifier_copy_overlap_count\<close>: the closest entry, or its predecessor when it
  starts after \<open>x\<close>, is the last entry that starts at or before \<open>x\<close>; both assertions fail
  when there is none.
\<close>

definition simplifier_copy_overlap_count :: "rat \<Rightarrow> overlap_count_t list \<Rightarrow> error + overlap_count_t list" where
  "simplifier_copy_overlap_count x ocs =
     (case takeWhile (\<lambda>a. oc_start a \<le> x) ocs of
        [] \<Rightarrow> Inl ASSERTION_FAILED
      | a # as \<Rightarrow> simplifier_insert_overlap_count x (oc_count (last (a # as))) ocs)"

subsection \<open>Recording output rows\<close>

text \<open>
  \<^verbatim>\<open>simplifier_record_node\<close> copies row \<^verbatim>\<open>input_id\<close> of the snapshot to the output
  node table. Reading the snapshot outside its rows is a memory fault.
\<close>

definition simplifier_record_node :: "simplifier_t \<Rightarrow> node_id_t \<Rightarrow> error + simplifier_t" where
  "simplifier_record_node s input_id =
     (if input_id < 0 \<or> input_id \<ge> int (length (input_nodes s)) then Inl MEMORY_FAULT
      else (case node_table_add_row_internal (nodes s) (input_nodes s ! nat input_id) of
              Inl e \<Rightarrow> Inl e
            | Inr t \<Rightarrow> Inr (s\<lparr>nodes := t\<rparr>)))"

text \<open>
  \<^verbatim>\<open>simplifier_record_edgeset\<close>. The children are sorted with \<^verbatim>\<open>qsort\<close> and
  \<^verbatim>\<open>cmp_node_id\<close>; node ids that compare equal are equal, so every sorting function
  returns the list that \<^const>\<open>sort\<close> returns. \<^verbatim>\<open>memcmp\<close> on two arrays of the same
  length is equality of the lists.
\<close>

definition simplifier_record_edgeset ::
  "simplifier_t \<Rightarrow> rat \<Rightarrow> rat \<Rightarrow> node_id_t \<Rightarrow> node_id_t list \<Rightarrow> error + simplifier_t" where
  "simplifier_record_edgeset s left right parent children0 =
     (let children = sort children0;
          new = \<lparr>es_left = left, es_right = right, es_parent = parent, es_children = children\<rparr>;
          le = last_edgeset s
      in if length (es_children le) = 0 then Inr (s\<lparr>last_edgeset := new\<rparr>)
         else if length (es_children le) = length children
                 \<and> left = es_right le \<and> parent = es_parent le \<and> children = es_children le
         then Inr (s\<lparr>last_edgeset := le\<lparr>es_right := right\<rparr>\<rparr>)
         else (case edgeset_table_add_row (edgesets s) (es_left le) (es_right le) (es_parent le)
                      (es_children le) of
                 Inl e \<Rightarrow> Inl e
               | Inr t \<Rightarrow> Inr (s\<lparr>edgesets := t, last_edgeset := new\<rparr>)))"

subsection \<open>\<^verbatim>\<open>simplifier_alloc\<close>\<close>

text \<open>The loop over the samples, in argument order.\<close>

fun alloc_samples :: "simplifier_t \<Rightarrow> node_id_t list \<Rightarrow> error + simplifier_t" where
  "alloc_samples s [] = Inr s"
| "alloc_samples s (input_node # rest) =
     (if input_node < 0 \<or> input_node \<ge> int (length (input_nodes s)) then Inl MSP_ERR_OUT_OF_BOUNDS
      else if and (node_flags (input_nodes s ! nat input_node)) MSP_NODE_IS_SAMPLE = 0
        then Inl MSP_ERR_BAD_SAMPLES
      else if ancestor_map s ! nat input_node \<noteq> [] then Inl MSP_ERR_DUPLICATE_SAMPLE
      else (case simplifier_record_node
                   (s\<lparr>ancestor_map := (ancestor_map s)[nat input_node :=
                          [\<lparr>seg_left = 0, seg_right = sequence_length s,
                            seg_node = int (length (nt_rows (nodes s)))\<rparr>]],
                      segment_heap_allocated := Suc (segment_heap_allocated s)\<rparr>)
                   input_node of
              Inl e \<Rightarrow> Inl e
            | Inr s' \<Rightarrow> alloc_samples s' rest))"

text \<open>
  \<^verbatim>\<open>simplifier_alloc\<close>. \<^verbatim>\<open>num_samples\<close> is the length of \<open>samples\<close>. The snapshot is
  made with \<^verbatim>\<open>node_table_set_columns\<close>, which rejects a \<^verbatim>\<open>NULL\<close> flags column
  (capacity 0) and a \<^verbatim>\<open>NULL\<close> name buffer beside a name-length column that is not
  \<^verbatim>\<open>NULL\<close>. The migration table and the flags argument are not used.
\<close>

definition simplifier_alloc ::
  "node_table_t \<Rightarrow> edgeset_table_t \<Rightarrow> site_t list \<Rightarrow> mutation_t list \<Rightarrow> node_id_t list \<Rightarrow> rat
     \<Rightarrow> error + simplifier_t" where
  "simplifier_alloc nodes_in edgesets_in sites_in mutations_in samples_in sequence_length_in =
     (if length samples_in < 2 \<or> length (nt_rows nodes_in) = 0 \<or> et_num_rows edgesets_in = 0
        then Inl MSP_ERR_BAD_PARAM_VALUE
      else if nt_max_rows nodes_in = 0 then Inl MSP_ERR_BAD_PARAM_VALUE
      else if nt_max_total_name_length nodes_in = 0 then Inl MSP_ERR_BAD_PARAM_VALUE
      else
        (case alloc_samples
           \<lparr>samples = samples_in, sequence_length = sequence_length_in,
            input_nodes = nt_rows nodes_in, nodes = node_table_reset nodes_in,
            edgesets = edgesets_in, sites = sites_in, mutations = mutations_in,
            ancestor_map = replicate (length (nt_rows nodes_in)) [],
            merge_queue = [], overlap_counts = [],
            last_edgeset = \<lparr>es_left = 0, es_right = 0, es_parent = 0, es_children = []\<rparr>,
            segment_heap_allocated = 0\<rparr>
           samples_in of
           Inl e \<Rightarrow> Inl e
         | Inr s \<Rightarrow>
            (case simplifier_insert_overlap_count 0 (of_nat (length samples_in)) (overlap_counts s) of
               Inl e \<Rightarrow> Inl e
             | Inr ocs1 \<Rightarrow>
                (case simplifier_insert_overlap_count sequence_length_in
                        (of_nat (length samples_in) + 1) ocs1 of
                   Inl e \<Rightarrow> Inl e
                 | Inr ocs2 \<Rightarrow> Inr (s\<lparr>overlap_counts := ocs2, sites := [], mutations := []\<rparr>)))))"


subsection \<open>\<^verbatim>\<open>simplifier_remove_ancestry\<close>\<close>

text \<open>
  The chain of \<^verbatim>\<open>input_id\<close> is cut in three: the segments that end at or before
  \<open>left\<close> (the last of them is \<^verbatim>\<open>last\<close>), the run inside \<open>[left, right)\<close>, whose head
  enters the merge queue, and what follows. A segment that overhangs \<open>left\<close> or \<open>right\<close>
  is split with a new segment from the pool.
\<close>

definition simplifier_remove_ancestry ::
  "simplifier_t \<Rightarrow> rat \<Rightarrow> rat \<Rightarrow> node_id_t \<Rightarrow> error + simplifier_t" where
  "simplifier_remove_ancestry s left right input_id =
     (if input_id < 0 \<or> input_id \<ge> int (length (ancestor_map s)) then Inl MEMORY_FAULT
      else
        let chain = ancestor_map s ! nat input_id;
            before = takeWhile (\<lambda>x. seg_right x \<le> left) chain
        in (case dropWhile (\<lambda>x. seg_right x \<le> left) chain of
             [] \<Rightarrow> Inr s
           | x0 # xs \<Rightarrow>
              let overhang = seg_left x0 < left;
                  before1 = (if overhang
                             then before @ [\<lparr>seg_left = seg_left x0, seg_right = left, seg_node = seg_node x0\<rparr>]
                             else before);
                  x = (if overhang then x0\<lparr>seg_left := left\<rparr> else x0);
                  n1 = (if overhang then Suc (segment_heap_allocated s) else segment_heap_allocated s)
              in if seg_left x < right then
                       (let cut =
                              (if seg_right x \<le> right then
                                 (let mid = takeWhile (\<lambda>y. seg_right y \<le> right) xs
                                  in (case dropWhile (\<lambda>y. seg_right y \<le> right) xs of
                                       [] \<Rightarrow> ((x, mid), [], n1)
                                     | y # ys \<Rightarrow>
                                        if seg_left y < right
                                        then ((x, mid @ [y\<lparr>seg_right := right\<rparr>]),
                                              \<lparr>seg_left = right, seg_right = seg_right y,
                                               seg_node = seg_node y\<rparr> # ys, Suc n1)
                                        else ((x, mid), y # ys, n1)))
                               else ((x\<lparr>seg_right := right\<rparr>, []),
                                     \<lparr>seg_left = right, seg_right = seg_right x,
                                      seg_node = seg_node x\<rparr> # xs, Suc n1))
                        in (case simplifier_priority_queue_insert (fst cut) (merge_queue s) of
                             Inl e \<Rightarrow> Inl e
                           | Inr q \<Rightarrow>
                               Inr (s\<lparr>ancestor_map :=
                                        (ancestor_map s)[nat input_id := before1 @ fst (snd cut)],
                                      merge_queue := q, segment_heap_allocated := snd (snd cut)\<rparr>)))
                 else Inr (s\<lparr>ancestor_map := (ancestor_map s)[nat input_id := before1 @ x # xs],
                            segment_heap_allocated := n1\<rparr>)))"


subsection \<open>\<^verbatim>\<open>simplifier_merge_ancestors\<close>\<close>

text \<open>
  The walk over the overlap counts when the interval at \<open>l\<close> has not fully coalesced:
  every count passed is lowered by \<open>h - 1\<close> (in \<^verbatim>\<open>uint32_t\<close> arithmetic), until a
  count equals \<open>h\<close> or the entry starts at or after \<open>r_max\<close>. The list is the tree from
  the entry at \<open>l\<close> on; running off its end fails the assertion on \<^verbatim>\<open>node\<close>.
\<close>

fun walk_overlap_counts ::
  "32 word \<Rightarrow> rat \<Rightarrow> overlap_count_t list \<Rightarrow> error + (rat \<times> overlap_count_t list)" where
  "walk_overlap_counts h r_max [] = Inl ASSERTION_FAILED"
| "walk_overlap_counts h r_max (nm # rest) =
     (if oc_count nm \<noteq> h \<and> oc_start nm < r_max
      then (case walk_overlap_counts h r_max rest of
              Inl e \<Rightarrow> Inl e
            | Inr (r, rest') \<Rightarrow> Inr (r, nm\<lparr>oc_count := oc_count nm - (h - 1)\<rparr> # rest'))
      else Inr (oc_start nm, nm # rest))"

text \<open>
  The update of the overlap counts for a coalescence of \<open>h\<close> segments at \<open>l\<close>: the
  entries at \<open>l\<close> and \<open>r_max\<close> are inserted when absent, then either the interval has
  fully coalesced (no \<^verbatim>\<open>alpha\<close>; the result carries \<open>False\<close>) or the walk gives \<open>r\<close>
  and \<^verbatim>\<open>alpha\<close> is allocated.
\<close>

definition ensure_overlap_count :: "rat \<Rightarrow> overlap_count_t list \<Rightarrow> error + overlap_count_t list" where
  "ensure_overlap_count x ocs =
     (if avl_search_overlap x ocs then Inr ocs else simplifier_copy_overlap_count x ocs)"

definition update_overlap_counts ::
  "nat \<Rightarrow> rat \<Rightarrow> rat \<Rightarrow> overlap_count_t list \<Rightarrow> error + (rat \<times> bool \<times> overlap_count_t list)" where
  "update_overlap_counts h l r_max ocs =
     (case ensure_overlap_count l ocs of
        Inl e \<Rightarrow> Inl e
      | Inr ocs1 \<Rightarrow>
         (case ensure_overlap_count r_max ocs1 of
            Inl e \<Rightarrow> Inl e
          | Inr ocs2 \<Rightarrow>
             (let before = takeWhile (\<lambda>a. oc_start a \<noteq> l) ocs2
              in (case dropWhile (\<lambda>a. oc_start a \<noteq> l) ocs2 of
                   [] \<Rightarrow> Inl ASSERTION_FAILED
                 | nm # rest \<Rightarrow>
                    if oc_count nm = of_nat h then
                      (case rest of
                         [] \<Rightarrow> Inl ASSERTION_FAILED
                       | nx # _ \<Rightarrow> Inr (oc_start nx, False, before @ nm\<lparr>oc_count := 0\<rparr> # rest))
                    else
                      (case walk_overlap_counts (of_nat h) r_max (nm # rest) of
                         Inl e \<Rightarrow> Inl e
                       | Inr (r, walked) \<Rightarrow> Inr (r, True, before @ walked))))))"

text \<open>
  The loop over \<open>H\<close> after a coalescence on \<open>[l, r)\<close>: a head that ends at \<open>r\<close> goes back
  to the pool and its successor, if any, is queued; a head that ends after \<open>r\<close> is
  shortened to start at \<open>r\<close> and queued again; any other head is queued as it is.
\<close>

fun requeue_segments ::
  "queue_item list \<Rightarrow> rat \<Rightarrow> queue_item list \<Rightarrow> nat \<Rightarrow> error + (queue_item list \<times> nat)" where
  "requeue_segments [] r q n = Inr (q, n)"
| "requeue_segments ((x, xs) # H) r q n =
     (if seg_right x = r then
        (case xs of
           [] \<Rightarrow> requeue_segments H r q (n - 1)
         | y # ys \<Rightarrow>
            (case simplifier_priority_queue_insert (y, ys) q of
               Inl e \<Rightarrow> Inl e
             | Inr q' \<Rightarrow> requeue_segments H r q' (n - 1)))
      else
        (case simplifier_priority_queue_insert
                ((if seg_right x > r then x\<lparr>seg_left := r\<rparr> else x), xs) q of
           Inl e \<Rightarrow> Inl e
         | Inr q' \<Rightarrow> requeue_segments H r q' n))"

text \<open>
  The case \<open>h = 1\<close>: the single head passes through as \<^verbatim>\<open>alpha\<close>, cut at \<open>next_l\<close> when
  another chain of the queue starts inside it; what is left of the chain is queued again.
  The result is \<^verbatim>\<open>alpha\<close>, the queue and the number of segments handed out.
\<close>

definition merge_single ::
  "queue_item \<Rightarrow> queue_item list \<Rightarrow> nat \<Rightarrow> error + (simplify_segment_t \<times> queue_item list \<times> nat)" where
  "merge_single item q n =
     (let x = fst item; next_l = (case q of [] \<Rightarrow> 0 | c # _ \<Rightarrow> seg_left (fst c))
      in if q \<noteq> [] \<and> next_l < seg_right x then
           (case simplifier_priority_queue_insert (x\<lparr>seg_left := next_l\<rparr>, snd item) q of
              Inl e \<Rightarrow> Inl e
            | Inr q' \<Rightarrow>
                Inr (\<lparr>seg_left = seg_left x, seg_right = next_l, seg_node = seg_node x\<rparr>, q', Suc n))
         else
           (case snd item of
              [] \<Rightarrow> Inr (x, q, n)
            | y # ys \<Rightarrow>
               (case simplifier_priority_queue_insert (y, ys) q of
                  Inl e \<Rightarrow> Inl e
                | Inr q' \<Rightarrow> Inr (x, q', n))))"

text \<open>
  The loop tail: \<^verbatim>\<open>alpha\<close> becomes the chain of \<^verbatim>\<open>input_id\<close> in the ancestor map when
  it is the first (\<^verbatim>\<open>z == NULL\<close>), and is linked after \<^verbatim>\<open>z\<close> otherwise. \<open>zs\<close> is the
  chain from the first \<^verbatim>\<open>alpha\<close> to \<^verbatim>\<open>z\<close>.
\<close>

definition integrate_alpha ::
  "simplifier_t \<Rightarrow> node_id_t \<Rightarrow> simplify_segment_t list \<Rightarrow> simplify_segment_t
     \<Rightarrow> error + (simplifier_t \<times> simplify_segment_t list)" where
  "integrate_alpha s input_id zs alpha =
     (if input_id < 0 \<or> input_id \<ge> int (length (ancestor_map s)) then Inl MEMORY_FAULT
      else Inr (s\<lparr>ancestor_map := (ancestor_map s)[nat input_id := zs @ [alpha]]\<rparr>, zs @ [alpha]))"

text \<open>
  One pass of the \<^verbatim>\<open>while (avl_count(Q) > 0)\<close> loop, on a queue that is not empty.
  \<open>H\<close> are the chains whose head starts at \<open>l\<close>, the least left end in the queue; the loop
  state is the simplifier, the flag \<^verbatim>\<open>coalescence\<close> and the chain \<open>zs\<close> built so far.
\<close>

definition merge_iteration ::
  "simplifier_t \<Rightarrow> node_id_t \<Rightarrow> bool \<Rightarrow> simplify_segment_t list
     \<Rightarrow> error + (simplifier_t \<times> bool \<times> simplify_segment_t list)" where
  "merge_iteration s input_id coalescence zs =
     (case merge_queue s of
        [] \<Rightarrow> Inr (s, coalescence, zs)
      | first # _ \<Rightarrow>
         let l = seg_left (fst first);
             H = takeWhile (\<lambda>c. seg_left (fst c) = l) (merge_queue s);
             q = dropWhile (\<lambda>c. seg_left (fst c) = l) (merge_queue s);
             r_max0 = fold (\<lambda>c m. min m (seg_right (fst c))) H (sequence_length s);
             r_max = (case q of [] \<Rightarrow> r_max0 | c # _ \<Rightarrow> min r_max0 (seg_left (fst c)))
         in if length H = 1 then
              (case merge_single (hd H) q (segment_heap_allocated s) of
                 Inl e \<Rightarrow> Inl e
               | Inr (alpha, q', n) \<Rightarrow>
                  (case integrate_alpha (s\<lparr>merge_queue := q', segment_heap_allocated := n\<rparr>)
                          input_id zs alpha of
                     Inl e \<Rightarrow> Inl e
                   | Inr (s', zs') \<Rightarrow> Inr (s', coalescence, zs')))
            else
              (case (if coalescence then Inr s else simplifier_record_node s input_id) of
                 Inl e \<Rightarrow> Inl e
               | Inr s1 \<Rightarrow>
                  let v = int (length (nt_rows (nodes s1))) - 1
                  in (case update_overlap_counts (length H) l r_max (overlap_counts s1) of
                       Inl e \<Rightarrow> Inl e
                     | Inr (r, has_alpha, ocs) \<Rightarrow>
                        (case requeue_segments H r q
                                (if has_alpha then Suc (segment_heap_allocated s1)
                                 else segment_heap_allocated s1) of
                           Inl e \<Rightarrow> Inl e
                         | Inr (q', n) \<Rightarrow>
                            (case simplifier_record_edgeset
                                    (s1\<lparr>overlap_counts := ocs, merge_queue := q',
                                        segment_heap_allocated := n\<rparr>)
                                    l r v (map (\<lambda>c. seg_node (fst c)) H) of
                               Inl e \<Rightarrow> Inl e
                             | Inr s2 \<Rightarrow>
                                if has_alpha then
                                  (case integrate_alpha s2 input_id zs
                                          \<lparr>seg_left = l, seg_right = r, seg_node = v\<rparr> of
                                     Inl e \<Rightarrow> Inl e
                                   | Inr (s3, zs') \<Rightarrow> Inr (s3, True, zs'))
                                else Inr (s2, True, zs))))))"

text \<open>
  The loop itself. It ends when the queue is empty; on a state that breaks the
  invariants of the chains a pass can leave the queue as it found it, so the loop need not
  end, and the result is \<open>None\<close> then.
\<close>

partial_function (option) merge_loop ::
  "simplifier_t \<Rightarrow> node_id_t \<Rightarrow> bool \<Rightarrow> simplify_segment_t list \<Rightarrow> (error + simplifier_t) option" where
  "merge_loop s input_id coalescence zs =
     (if merge_queue s = [] then Some (Inr s)
      else (case merge_iteration s input_id coalescence zs of
              Inl e \<Rightarrow> Some (Inl e)
            | Inr (s', coalescence', zs') \<Rightarrow> merge_loop s' input_id coalescence' zs'))"

declare merge_loop.simps [code]

definition simplifier_merge_ancestors :: "simplifier_t \<Rightarrow> node_id_t \<Rightarrow> (error + simplifier_t) option" where
  "simplifier_merge_ancestors s input_id = merge_loop s input_id False []"


subsection \<open>\<^verbatim>\<open>simplifier_run\<close>\<close>

text \<open>
  The loop over the children of one input row: a child with a chain in the ancestor map
  has its ancestry on \<open>[left, right)\<close> removed, between two calls of
  \<^verbatim>\<open>simplifier_check_state\<close>. A child id outside the ancestor map is a memory fault.
\<close>

fun remove_children :: "simplifier_t \<Rightarrow> rat \<Rightarrow> rat \<Rightarrow> node_id_t list \<Rightarrow> error + simplifier_t" where
  "remove_children s left right [] = Inr s"
| "remove_children s left right (c # cs) =
     (if c < 0 \<or> c \<ge> int (length (ancestor_map s)) then Inl MEMORY_FAULT
      else if ancestor_map s ! nat c \<noteq> [] then
        (if \<not> simplifier_check_state s then Inl ASSERTION_FAILED
         else (case simplifier_remove_ancestry s left right c of
                 Inl e \<Rightarrow> Inl e
               | Inr s' \<Rightarrow>
                  if \<not> simplifier_check_state s' then Inl ASSERTION_FAILED
                  else remove_children s' left right cs))
      else remove_children s left right cs)"

text \<open>
  The flush of a parent group when row \<open>j\<close> starts a new one: the state is checked, the
  ancestors of \<^verbatim>\<open>current_parent\<close> are merged, and the times of the two parents are
  compared in the snapshot of the input nodes.
\<close>

definition flush_parent ::
  "simplifier_t \<Rightarrow> node_id_t \<Rightarrow> node_id_t \<Rightarrow> (error + simplifier_t) option" where
  "flush_parent s current_parent parent =
     (if \<not> simplifier_check_state s then Some (Inl ASSERTION_FAILED)
      else (case simplifier_merge_ancestors s current_parent of
              None \<Rightarrow> None
            | Some (Inl e) \<Rightarrow> Some (Inl e)
            | Some (Inr s') \<Rightarrow>
               if merge_queue s' \<noteq> [] then Some (Inl ASSERTION_FAILED)
               else if current_parent < 0 \<or> current_parent \<ge> int (length (input_nodes s'))
                       \<or> parent < 0 \<or> parent \<ge> int (length (input_nodes s'))
                 then Some (Inl MEMORY_FAULT)
               else if node_time (input_nodes s' ! nat current_parent)
                         > node_time (input_nodes s' ! nat parent)
                 then Some (Inl MSP_ERR_RECORDS_NOT_TIME_SORTED)
               else Some (Inr s')))"

text \<open>
  The body of the loop over the input rows, for row \<open>j\<close>. The loop state is the
  simplifier, \<^verbatim>\<open>current_parent\<close> and \<^verbatim>\<open>children_offset\<close>. The row is read from the
  buffers of the output table; its children are read when the loop over them runs, that
  is after the merge of the previous group has written its rows.
\<close>

definition sweep_row ::
  "nat \<Rightarrow> simplifier_t \<times> node_id_t \<times> nat \<Rightarrow> (error + simplifier_t \<times> node_id_t \<times> nat) option" where
  "sweep_row j st =
     (let s = fst st; current_parent = fst (snd st); children_offset = snd (snd st);
          t = edgesets s
      in if \<not> j \<ge> et_num_rows t then Some (Inl ASSERTION_FAILED)
         else if j \<ge> length (et_parent t) \<or> j \<ge> length (et_left t) \<or> j \<ge> length (et_right t)
                 \<or> j \<ge> length (et_children_length t) then Some (Inl MEMORY_FAULT)
         else
           (let parent = et_parent t ! j; left = et_left t ! j; right = et_right t ! j;
                children_length = et_children_length t ! j
            in (case (if parent \<noteq> current_parent then flush_parent s current_parent parent
                     else Some (Inr s)) of
                 None \<Rightarrow> None
               | Some (Inl e) \<Rightarrow> Some (Inl e)
               | Some (Inr s1) \<Rightarrow>
                  (let children = take children_length (drop children_offset (et_children (edgesets s1)))
                   in (case remove_children s1 left right children of
                        Inl e \<Rightarrow> Some (Inl e)
                      | Inr s2 \<Rightarrow>
                         if length children < children_length then Some (Inl MEMORY_FAULT)
                         else Some (Inr (s2, parent, children_offset + children_length)))))))"

fun sweep ::
  "nat list \<Rightarrow> simplifier_t \<times> node_id_t \<times> nat \<Rightarrow> (error + simplifier_t \<times> node_id_t \<times> nat) option" where
  "sweep [] st = Some (Inr st)"
| "sweep (j # js) st =
     (case sweep_row j st of
        None \<Rightarrow> None
      | Some (Inl e) \<Rightarrow> Some (Inl e)
      | Some (Inr st') \<Rightarrow> sweep js st')"

text \<open>The last flush of the squash buffer, which \<^verbatim>\<open>simplifier_run\<close> makes in any case.\<close>

definition flush_last_edgeset :: "simplifier_t \<Rightarrow> error + simplifier_t" where
  "flush_last_edgeset s =
     (case edgeset_table_add_row (edgesets s) (es_left (last_edgeset s)) (es_right (last_edgeset s))
             (es_parent (last_edgeset s)) (es_children (last_edgeset s)) of
        Inl e \<Rightarrow> Inl e
      | Inr t \<Rightarrow> Inr (s\<lparr>edgesets := t\<rparr>))"

text \<open>
  \<^verbatim>\<open>simplifier_run\<close> up to the last flush: the output table is reset, the input rows
  are swept, and the group of the last parent is merged and checked.
\<close>

definition run_sweep :: "simplifier_t \<Rightarrow> (error + simplifier_t) option" where
  "run_sweep s0 =
     (let num_input_edgesets = et_num_rows (edgesets s0);
          s = s0\<lparr>edgesets := edgeset_table_reset (edgesets s0)\<rparr>
      in if num_input_edgesets > 0 then
           (if length (et_parent (edgesets s)) = 0 then Some (Inl MEMORY_FAULT)
            else
              (case sweep [0 ..< num_input_edgesets] (s, et_parent (edgesets s) ! 0, 0) of
                 None \<Rightarrow> None
               | Some (Inl e) \<Rightarrow> Some (Inl e)
               | Some (Inr st) \<Rightarrow>
                  (case simplifier_merge_ancestors (fst st) (fst (snd st)) of
                     None \<Rightarrow> None
                   | Some (Inl e) \<Rightarrow> Some (Inl e)
                   | Some (Inr s1) \<Rightarrow>
                      if merge_queue s1 \<noteq> [] then Some (Inl ASSERTION_FAILED)
                      else if \<not> simplifier_check_state s1 then Some (Inl ASSERTION_FAILED)
                      else Some (Inr s1))))
         else Some (Inr s))"

definition simplifier_run :: "simplifier_t \<Rightarrow> (error + simplifier_t) option" where
  "simplifier_run s0 =
     (case run_sweep s0 of
        None \<Rightarrow> None
      | Some (Inl e) \<Rightarrow> Some (Inl e)
      | Some (Inr s1) \<Rightarrow> Some (flush_last_edgeset s1))"


section \<open>Auxiliary notions\<close>

subsection \<open>What the steps of a run leave unchanged\<close>

text \<open>
  No step of \<^verbatim>\<open>simplifier_run\<close> writes to the samples, the sequence length, the
  snapshot of the input nodes or the site and mutation tables; the ancestor map keeps its
  size, and the output node table only grows at its end.
\<close>

definition frame :: "simplifier_t \<Rightarrow> simplifier_t \<Rightarrow> bool" where
  "frame s s' \<longleftrightarrow>
     samples s' = samples s \<and> sequence_length s' = sequence_length s
     \<and> input_nodes s' = input_nodes s \<and> sites s' = sites s \<and> mutations s' = mutations s
     \<and> length (ancestor_map s') = length (ancestor_map s)
     \<and> prefix (nt_rows (nodes s)) (nt_rows (nodes s'))
     \<and> nt_max_rows (nodes s') = nt_max_rows (nodes s)
     \<and> nt_max_total_name_length (nodes s') = nt_max_total_name_length (nodes s)"

subsection \<open>The checks of \<^verbatim>\<open>simplifier_alloc\<close> on the samples\<close>



subsection \<open>The rows that a run writes and the rows it still has to read\<close>

text \<open>
  The write of \<^verbatim>\<open>edgeset_table_add_row\<close> for a row with children, and the relation
  between two states of which the second has the edgeset table of the first with some
  rows added.
\<close>

definition write_row :: "edgeset_table_t \<Rightarrow> edgeset_t \<Rightarrow> edgeset_table_t" where
  "write_row t e = t\<lparr>
        et_left := put_cell (et_left t) (et_num_rows t) (es_left e),
        et_right := put_cell (et_right t) (et_num_rows t) (es_right e),
        et_parent := put_cell (et_parent t) (et_num_rows t) (es_parent e),
        et_children := put_cells (et_children t) (et_total_children_length t) (es_children e),
        et_children_length := put_cell (et_children_length t) (et_num_rows t) (length (es_children e)),
        et_total_children_length := et_total_children_length t + length (es_children e),
        et_num_rows := Suc (et_num_rows t)\<rparr>"

definition edgesets_written :: "simplifier_t \<Rightarrow> simplifier_t \<Rightarrow> bool" where
  "edgesets_written s s' \<longleftrightarrow>
     (\<exists>es. (\<forall>e \<in> set es. es_children e \<noteq> []) \<and> edgesets s' = foldl write_row (edgesets s) es)"







subsection \<open>The rows of an edgeset table\<close>

text \<open>
  The rows \<open>0 \<dots> num_rows - 1\<close> that an edgeset table holds: row \<open>j\<close> has the entries
  \<open>j\<close> of the fixed-width columns and the slice of the children payload that starts at
  the sum of the lengths before it.
\<close>

fun read_rows :: "edgeset_table_t \<Rightarrow> nat \<Rightarrow> nat \<Rightarrow> nat \<Rightarrow> edgeset_t list" where
  "read_rows t 0 j off = []"
| "read_rows t (Suc k) j off =
     \<lparr>es_left = et_left t ! j, es_right = et_right t ! j, es_parent = et_parent t ! j,
      es_children = take (et_children_length t ! j) (drop off (et_children t))\<rparr>
     # read_rows t k (Suc j) (off + et_children_length t ! j)"

definition et_rows :: "edgeset_table_t \<Rightarrow> edgeset_t list" where
  "et_rows t = read_rows t (et_num_rows t) 0 0"

text \<open>
  The fixed-width columns reach at least to \<^verbatim>\<open>num_rows\<close> and the payload to
  \<^verbatim>\<open>total_children_length\<close>; and the columns of a table \<open>t'\<close> that holds the rows
  \<open>es\<close> from row \<open>n\<close> and offset \<open>c\<close> on and is \<open>t\<close> elsewhere.
\<close>

definition et_bounds :: "edgeset_table_t \<Rightarrow> bool" where
  "et_bounds t \<longleftrightarrow>
     et_num_rows t \<le> length (et_left t) \<and> et_num_rows t \<le> length (et_right t)
     \<and> et_num_rows t \<le> length (et_parent t) \<and> et_num_rows t \<le> length (et_children_length t)
     \<and> et_total_children_length t \<le> length (et_children t)"

definition rows_stored ::
  "edgeset_table_t \<Rightarrow> nat \<Rightarrow> nat \<Rightarrow> edgeset_t list \<Rightarrow> edgeset_table_t \<Rightarrow> bool" where
  "rows_stored t n c es t' \<longleftrightarrow>
     et_num_rows t' = n + length es
     \<and> et_total_children_length t' = c + length (concat (map es_children es))
     \<and> et_left t' = take n (et_left t) @ map es_left es @ drop (n + length es) (et_left t)
     \<and> et_right t' = take n (et_right t) @ map es_right es @ drop (n + length es) (et_right t)
     \<and> et_parent t' = take n (et_parent t) @ map es_parent es @ drop (n + length es) (et_parent t)
     \<and> et_children_length t' = take n (et_children_length t) @ map (\<lambda>e. length (es_children e)) es
          @ drop (n + length es) (et_children_length t)
     \<and> et_children t' = take c (et_children t) @ concat (map es_children es)
          @ drop (c + length (concat (map es_children es))) (et_children t)"


subsection \<open>The order of the sorter\<close>

text \<open>
  A sort key as a row, with the children sorted as the second loop of the sorter writes
  them, and as they were read; the order of two rows by (time of the parent, parent,
  left); and what is left of a row when the order of its children is forgotten.
\<close>

definition sorted_row :: "edgeset_sort_t \<Rightarrow> edgeset_t" where
  "sorted_row e = \<lparr>es_left = srt_left e, es_right = srt_right e, es_parent = srt_parent e,
     es_children = sort (srt_children e)\<rparr>"

definition unsorted_row :: "edgeset_sort_t \<Rightarrow> edgeset_t" where
  "unsorted_row e = \<lparr>es_left = srt_left e, es_right = srt_right e, es_parent = srt_parent e,
     es_children = srt_children e\<rparr>"

definition edgeset_le :: "node_t list \<Rightarrow> edgeset_t \<Rightarrow> edgeset_t \<Rightarrow> bool" where
  "edgeset_le rows a b \<longleftrightarrow>
     (let ta = node_time (rows ! nat (es_parent a)); tb = node_time (rows ! nat (es_parent b))
      in ta < tb \<or> (ta = tb \<and> (es_parent a < es_parent b
                               \<or> (es_parent a = es_parent b \<and> es_left a \<le> es_left b))))"

definition row_content :: "edgeset_t \<Rightarrow> rat \<times> rat \<times> node_id_t \<times> node_id_t multiset" where
  "row_content e = (es_left e, es_right e, es_parent e, mset (es_children e))"




text \<open>
  Two sorting functions that meet the contract of \<^verbatim>\<open>qsort\<close>: insertion sort, which
  keeps elements that compare equal in their order, and insertion sort of the reversed
  array, which reverses them.
\<close>

fun insert_cmp :: "('a \<Rightarrow> 'a \<Rightarrow> int) \<Rightarrow> 'a \<Rightarrow> 'a list \<Rightarrow> 'a list" where
  "insert_cmp cmp x [] = [x]"
| "insert_cmp cmp x (y # ys) = (if cmp x y \<le> 0 then x # y # ys else y # insert_cmp cmp x ys)"

definition insertion_sort :: "('a \<Rightarrow> 'a \<Rightarrow> int) \<Rightarrow> 'a list \<Rightarrow> 'a list" where
  "insertion_sort cmp xs = foldr (insert_cmp cmp) xs []"

definition reversing_sort :: "('a \<Rightarrow> 'a \<Rightarrow> int) \<Rightarrow> 'a list \<Rightarrow> 'a list" where
  "reversing_sort cmp xs = insertion_sort cmp (rev xs)"

subsection \<open>The remapping of mutations, in the words of the specification\<close>

text \<open>
  The specification asks that a mutation be kept when a segment of the final chain of
  its node covers the position of its site, with the node of that segment as its new node;
  that a site without mutations be dropped; and that the remaining sites be renumbered
  without gaps. These definitions follow the specification, not the code: they are what
  the output of the code is compared with.
\<close>

definition spec_covering_node :: "simplify_segment_t list \<Rightarrow> rat \<Rightarrow> node_id_t option" where
  "spec_covering_node chain x =
     map_option seg_node (find (\<lambda>u. seg_left u \<le> x \<and> x < seg_right u) chain)"

definition spec_remap_mutations ::
  "simplify_segment_t list list \<Rightarrow> site_t list \<Rightarrow> mutation_t list \<Rightarrow> mutation_t list" where
  "spec_remap_mutations am sites_in mutations_in =
     List.map_filter
       (\<lambda>m. if 0 \<le> mut_node m \<and> mut_node m < int (length am)
                \<and> 0 \<le> mut_site m \<and> mut_site m < int (length sites_in)
             then (case spec_covering_node (am ! nat (mut_node m))
                          (site_position (sites_in ! nat (mut_site m))) of
                     None \<Rightarrow> None
                   | Some v \<Rightarrow> Some (m\<lparr>mut_node := v\<rparr>))
             else None)
       mutations_in"

definition spec_kept_sites :: "site_t list \<Rightarrow> mutation_t list \<Rightarrow> nat list" where
  "spec_kept_sites sites_in remapped =
     filter (\<lambda>j. list_ex (\<lambda>m. mut_site m = int j) remapped) [0 ..< length sites_in]"

definition spec_output_sites :: "site_t list \<Rightarrow> mutation_t list \<Rightarrow> site_t list" where
  "spec_output_sites sites_in remapped = map ((!) sites_in) (spec_kept_sites sites_in remapped)"

definition spec_output_mutations :: "site_t list \<Rightarrow> mutation_t list \<Rightarrow> mutation_t list" where
  "spec_output_mutations sites_in remapped =
     map (\<lambda>m. m\<lparr>mut_site := int (length (filter (\<lambda>j. int j < mut_site m)
                                           (spec_kept_sites sites_in remapped)))\<rparr>)
       remapped"

section \<open>Concrete tables\<close>

text \<open>Small inputs on which the definitions above are evaluated.\<close>

definition example_node :: "32 word \<Rightarrow> rat \<Rightarrow> node_t" where
  "example_node f t = \<lparr>node_flags = f, node_time = t, node_population = 0, node_name = []\<rparr>"



text \<open>
  Three samples, of which 1 and 2 coalesce in node 3 on \<open>[0, 1)\<close> and sample 0 has no
  parent; one site at 1/2 with one mutation above sample 0.
\<close>

definition three_sample_nodes :: node_table_t where
  "three_sample_nodes =
     \<lparr>nt_rows = [example_node 1 0, example_node 1 0, example_node 1 0, example_node 0 1],
      nt_max_rows = 1024, nt_max_total_name_length = 1024\<rparr>"

definition three_sample_edgesets :: edgeset_table_t where
  "three_sample_edgesets = \<lparr>et_num_rows = 1, et_total_children_length = 2, et_left = [0],
     et_right = [1], et_parent = [3], et_children = [1, 2], et_children_length = [2]\<rparr>"

definition one_site :: "site_t list" where
  "one_site = [\<lparr>site_position = 1 / 2, site_ancestral_state = ''0''\<rparr>]"

definition one_mutation :: "mutation_t list" where
  "one_mutation = [\<lparr>mut_site = 0, mut_node = 0, mut_derived_state = ''1''\<rparr>]"

definition three_sample_alloc :: "error + simplifier_t" where
  "three_sample_alloc =
     simplifier_alloc three_sample_nodes three_sample_edgesets one_site one_mutation [0, 1, 2] 1"

definition three_sample_result :: simplifier_t where
  "three_sample_result = projr (the (simplifier_run (projr three_sample_alloc)))"

text \<open>
  Two samples that coalesce in node 2 on \<open>[0, 1)\<close>, and node 3 above node 2: once with
  node 3 older than node 2, once younger, so that the two edgesets are out of time order.
\<close>

definition pruned_nodes :: node_table_t where
  "pruned_nodes = \<lparr>nt_rows = [example_node 1 0, example_node 1 0, example_node 0 1, example_node 0 2],
      nt_max_rows = 1024, nt_max_total_name_length = 1024\<rparr>"


definition two_row_edgesets :: edgeset_table_t where
  "two_row_edgesets = \<lparr>et_num_rows = 2, et_total_children_length = 3, et_left = [0, 0],
     et_right = [1, 1], et_parent = [2, 3], et_children = [0, 1, 2], et_children_length = [2, 1]\<rparr>"



text \<open>
  The two edgesets above in the other order and with the children of the first
  descending, and two mutations at the one site.
\<close>

definition shuffled_edgesets :: edgeset_table_t where
  "shuffled_edgesets = \<lparr>et_num_rows = 2, et_total_children_length = 3, et_left = [0, 0],
     et_right = [1, 1], et_parent = [3, 2], et_children = [2, 1, 0], et_children_length = [1, 2]\<rparr>"

section \<open>The frame of a run\<close>

lemma frame_refl [simp]: "frame s s"
  by (simp add: frame_def)

lemma frame_trans: "frame s s' \<Longrightarrow> frame s' s'' \<Longrightarrow> frame s s''"
  by (auto simp: frame_def)

lemma frame_update [simp]:
  "frame s (s'\<lparr>merge_queue := q\<rparr>) = frame s s'"
  "frame s (s'\<lparr>segment_heap_allocated := n\<rparr>) = frame s s'"
  "frame s (s'\<lparr>overlap_counts := ocs\<rparr>) = frame s s'"
  "frame s (s'\<lparr>last_edgeset := le\<rparr>) = frame s s'"
  "frame s (s'\<lparr>edgesets := t\<rparr>) = frame s s'"
  "length am = length (ancestor_map s') \<Longrightarrow> frame s (s'\<lparr>ancestor_map := am\<rparr>) = frame s s'"
  "frame (s\<lparr>merge_queue := q\<rparr>) s' = frame s s'"
  "frame (s\<lparr>segment_heap_allocated := n\<rparr>) s' = frame s s'"
  "frame (s\<lparr>overlap_counts := ocs\<rparr>) s' = frame s s'"
  "frame (s\<lparr>last_edgeset := le\<rparr>) s' = frame s s'"
  "frame (s\<lparr>edgesets := t\<rparr>) s' = frame s s'"
  by (simp_all add: frame_def)

lemma record_node_frame:
  "simplifier_record_node s input_id = Inr s' \<Longrightarrow> frame s s'"
  by (auto simp: simplifier_record_node_def node_table_add_row_internal_def frame_def
      split: if_splits sum.splits)

lemma record_edgeset_frame:
  "simplifier_record_edgeset s left right parent children = Inr s' \<Longrightarrow> frame s s'"
  by (auto simp: simplifier_record_edgeset_def Let_def split: if_splits sum.splits)

lemma remove_ancestry_frame:
  "simplifier_remove_ancestry s left right input_id = Inr s' \<Longrightarrow> frame s s'"
  by (auto simp: simplifier_remove_ancestry_def Let_def split: if_splits sum.splits list.splits)

lemma integrate_alpha_frame:
  "integrate_alpha s input_id zs alpha = Inr (s', zs') \<Longrightarrow> frame s s'"
  by (auto simp: integrate_alpha_def split: if_splits)

lemma merge_iteration_frame:
  assumes "merge_iteration s input_id coalescence zs = Inr (s', coalescence', zs')"
  shows "frame s s'"
proof (cases "merge_queue s")
  case Nil
  with assms show ?thesis by (simp add: merge_iteration_def)
next
  case (Cons first rest)
  show ?thesis
  proof (cases "length (takeWhile (\<lambda>c. seg_left (fst c) = seg_left (fst first)) (merge_queue s)) = 1")
    case True
    with assms Cons show ?thesis
      by (auto simp: merge_iteration_def Let_def split: sum.splits prod.splits
          dest!: integrate_alpha_frame)
  next
    case False
    with assms Cons show ?thesis
      by (auto simp: merge_iteration_def Let_def split: sum.splits prod.splits if_splits
          dest!: integrate_alpha_frame record_edgeset_frame record_node_frame;
          blast intro: frame_trans)
  qed
qed

lemma merge_loop_rule:
  assumes step: "\<And>s c zs s' c' zs'. I s c zs \<Longrightarrow> merge_queue s \<noteq> []
      \<Longrightarrow> merge_iteration s input_id c zs = Inr (s', c', zs') \<Longrightarrow> I s' c' zs'"
    and loop: "merge_loop s input_id c zs = Some (Inr s')"
    and init: "I s c zs"
  shows "\<exists>c' zs'. I s' c' zs' \<and> merge_queue s' = []"
proof -
  let ?Q = "\<lambda>s i c zs (y :: error + simplifier_t). \<forall>s'. i = input_id \<longrightarrow> y = Inr s' \<longrightarrow> I s c zs
              \<longrightarrow> (\<exists>c' zs'. I s' c' zs' \<and> merge_queue s' = [])"
  have "?Q s input_id c zs (Inr s')"
  proof (rule merge_loop.raw_induct [where P = "?Q", OF _ loop])
    fix f s i c zs y
    assume ih: "\<And>s i c zs y. f s i c zs = Some y \<Longrightarrow> ?Q s i c zs y"
      and body: "(if merge_queue s = [] then Some (Inr s)
                  else case merge_iteration s i c zs of
                         Inl e \<Rightarrow> Some (Inl e)
                       | Inr (s', coalescence', zs') \<Rightarrow> f s' i coalescence' zs') = Some y"
    show "?Q s i c zs y"
    proof (intro allI impI)
      fix s' assume i: "i = input_id" and y: "y = Inr s'" and inv: "I s c zs"
      show "\<exists>c' zs'. I s' c' zs' \<and> merge_queue s' = []"
      proof (cases "merge_queue s = []")
        case True
        with body y inv show ?thesis by auto
      next
        case False
        with body y obtain s1 c1 zs1 where it: "merge_iteration s i c zs = Inr (s1, c1, zs1)"
          and rec: "f s1 i c1 zs1 = Some (Inr s')"
          by (auto split: sum.splits)
        from step [OF inv False it [unfolded i]] have "I s1 c1 zs1" .
        with ih [OF rec] i show ?thesis by blast
      qed
    qed
  qed
  with init show ?thesis by blast
qed

lemma merge_ancestors_frame:
  assumes "simplifier_merge_ancestors s input_id = Some (Inr s')"
  shows "frame s s'"
proof -
  have "\<exists>c' zs'. (\<lambda>t (c::bool) (zs::simplify_segment_t list). frame s t) s' c' zs' \<and> merge_queue s' = []"
  proof (rule merge_loop_rule [where I = "\<lambda>t c zs. frame s t"])
    show "merge_loop s input_id False [] = Some (Inr s')"
      using assms by (simp add: simplifier_merge_ancestors_def)
  qed (auto dest: merge_iteration_frame intro: frame_trans)
  then show ?thesis by simp
qed


lemma remove_children_frame:
  "remove_children s left right cs = Inr s' \<Longrightarrow> frame s s'"
proof (induction cs arbitrary: s)
  case Nil
  then show ?case by simp
next
  case (Cons c cs)
  then show ?case
    by (auto split: if_splits sum.splits dest!: remove_ancestry_frame intro: frame_trans)
qed

lemma flush_parent_frame:
  "flush_parent s current_parent parent = Some (Inr s') \<Longrightarrow> frame s s'"
  by (auto simp: flush_parent_def split: if_splits option.splits sum.splits
      dest: merge_ancestors_frame)

lemma sweep_row_frame:
  "sweep_row j st = Some (Inr st') \<Longrightarrow> frame (fst st) (fst st')"
  by (auto simp: sweep_row_def Let_def split: if_splits option.splits sum.splits
      dest!: flush_parent_frame remove_children_frame intro: frame_trans)

lemma sweep_frame:
  "sweep js st = Some (Inr st') \<Longrightarrow> frame (fst st) (fst st')"
proof (induction js arbitrary: st)
  case Nil
  then show ?case by simp
next
  case (Cons j js)
  then show ?case
    by (auto split: option.splits sum.splits dest!: sweep_row_frame intro: frame_trans)
qed

lemma run_sweep_frame:
  "run_sweep s = Some (Inr s') \<Longrightarrow> frame s s'"
  by (auto simp: run_sweep_def Let_def split: if_splits option.splits sum.splits
      dest!: sweep_frame merge_ancestors_frame intro: frame_trans)

lemma run_frame:
  "simplifier_run s = Some (Inr s') \<Longrightarrow> frame s s'"
  by (auto simp: simplifier_run_def flush_last_edgeset_def split: option.splits sum.splits
      dest!: run_sweep_frame)

lemma alloc_samples_nodes:
  "alloc_samples s xs = Inr s' \<Longrightarrow>
     input_nodes s' = input_nodes s \<and> sites s' = sites s \<and> mutations s' = mutations s
     \<and> samples s' = samples s \<and> sequence_length s' = sequence_length s
     \<and> nt_rows (nodes s') = nt_rows (nodes s) @ map (\<lambda>i. input_nodes s ! nat i) xs"
proof (induction xs arbitrary: s)
  case Nil
  then show ?case by simp
next
  case (Cons x xs)
  from Cons.prems obtain s1 where
      r: "simplifier_record_node
            (s\<lparr>ancestor_map := (ancestor_map s)[nat x :=
                   [\<lparr>seg_left = 0, seg_right = sequence_length s,
                     seg_node = int (length (nt_rows (nodes s)))\<rparr>]],
               segment_heap_allocated := Suc (segment_heap_allocated s)\<rparr>) x = Inr s1"
      and rest: "alloc_samples s1 xs = Inr s'"
    by (auto split: if_splits sum.splits)
  from r have s1: "input_nodes s1 = input_nodes s" "sites s1 = sites s" "mutations s1 = mutations s"
      "samples s1 = samples s" "sequence_length s1 = sequence_length s"
      "nt_rows (nodes s1) = nt_rows (nodes s) @ [input_nodes s ! nat x]"
    by (auto simp: simplifier_record_node_def node_table_add_row_internal_def
        split: if_splits sum.splits)
  from Cons.IH [OF rest] s1 show ?case by simp
qed


lemma alloc_nodes:
  assumes "simplifier_alloc nodes_in edgesets_in sites_in mutations_in samples_in sequence_length_in = Inr s"
  shows "nt_rows (nodes s) = map (\<lambda>i. nt_rows nodes_in ! nat i) samples_in"
    and "sites s = []" and "mutations s = []" and "input_nodes s = nt_rows nodes_in"
    and "samples s = samples_in" and "sequence_length s = sequence_length_in"
  using assms
  by (auto simp: simplifier_alloc_def node_table_reset_def split: if_splits sum.splits
      dest!: alloc_samples_nodes)


section \<open>The last flush of a run without coalescence\<close>

lemma sort_eq_Nil_iff [simp]: "sort xs = [] \<longleftrightarrow> xs = []"
  by (metis length_sort length_0_conv)

text \<open>
  The squash buffer is written by \<^verbatim>\<open>simplifier_record_edgeset\<close> only, and a call with
  children leaves children in it; \<^verbatim>\<open>simplifier_alloc\<close> leaves it empty. So the buffer
  is empty at the last flush exactly when no edgeset was recorded.
\<close>

lemma record_edgeset_buffer:
  "simplifier_record_edgeset s left right parent children = Inr s' \<Longrightarrow> children \<noteq> []
     \<Longrightarrow> es_children (last_edgeset s') \<noteq> []"
  by (auto simp: simplifier_record_edgeset_def Let_def split: if_splits sum.splits)



section \<open>Sites and mutations\<close>

text \<open>
  C2, as the code has it. \<^verbatim>\<open>simplifier_alloc\<close> resets the site and the mutation table
  and \<^verbatim>\<open>simplifier_run\<close> never writes to them: after a successful run both are empty,
  whatever the input held. No mutation is remapped or kept.
\<close>

theorem run_drops_sites_and_mutations:
  assumes "simplifier_alloc nodes_in edgesets_in sites_in mutations_in samples_in sequence_length_in = Inr s"
    and "simplifier_run s = Some (Inr s')"
  shows "sites s' = [] \<and> mutations s' = []"
  using alloc_nodes(2,3) [OF assms(1)] run_frame [OF assms(2)]
  by (simp add: frame_def)

theorem run_drops_sites_and_mutations_witness:
  "three_sample_alloc = Inr (projr three_sample_alloc)
   \<and> simplifier_run (projr three_sample_alloc) = Some (Inr three_sample_result)
   \<and> sites three_sample_result = [] \<and> mutations three_sample_result = []"
proof -
  have a: "simplifier_alloc three_sample_nodes three_sample_edgesets one_site one_mutation [0, 1, 2] 1
             = Inr (projr three_sample_alloc)"
    by code_simp
  have b: "simplifier_run (projr three_sample_alloc) = Some (Inr three_sample_result)"
    by code_simp
  from run_drops_sites_and_mutations [OF a b] a b show ?thesis
    by (simp add: three_sample_alloc_def)
qed

text \<open>
  C2, as the claim states it, fails. The input has one site at 1/2 and one mutation there
  above sample 0, whose final chain \<open>[0, 1) \<rightarrow> 0\<close> covers the site: the specification keeps
  the mutation, with node 0, and the site. The run succeeds and its mutation and site
  tables are empty.
\<close>

theorem mutation_remap_counterexample:
  "three_sample_alloc = Inr (projr three_sample_alloc)
   \<and> simplifier_run (projr three_sample_alloc) = Some (Inr three_sample_result)
   \<and> spec_remap_mutations (ancestor_map three_sample_result) one_site one_mutation
       = [\<lparr>mut_site = 0, mut_node = 0, mut_derived_state = ''1''\<rparr>]
   \<and> mutations three_sample_result
       \<noteq> spec_output_mutations one_site
           (spec_remap_mutations (ancestor_map three_sample_result) one_site one_mutation)
   \<and> sites three_sample_result
       \<noteq> spec_output_sites one_site
           (spec_remap_mutations (ancestor_map three_sample_result) one_site one_mutation)"
  by code_simp

section \<open>The sample nodes of the output\<close>

text \<open>
  C3. After \<^verbatim>\<open>simplifier_alloc\<close> and a successful \<^verbatim>\<open>simplifier_run\<close> the output node
  table has at least \<^verbatim>\<open>num_samples\<close> rows, and row \<open>j\<close> is the row of input node
  \<open>samples[j]\<close> (flags, time, population and name), for every \<open>j\<close> below \<^verbatim>\<open>num_samples\<close>.
\<close>

theorem run_keeps_sample_nodes:
  assumes "simplifier_alloc nodes_in edgesets_in sites_in mutations_in samples_in sequence_length_in = Inr s"
    and "simplifier_run s = Some (Inr s')"
  shows "length (nt_rows (nodes s')) \<ge> length samples_in
     \<and> (\<forall>j < length samples_in. nt_rows (nodes s') ! j = nt_rows nodes_in ! nat (samples_in ! j))"
proof -
  from run_frame [OF assms(2)] have p: "prefix (nt_rows (nodes s)) (nt_rows (nodes s'))"
    by (simp add: frame_def)
  then obtain more where m: "nt_rows (nodes s') = nt_rows (nodes s) @ more"
    by (auto simp: prefix_def)
  show ?thesis
    by (simp add: m alloc_nodes(1) [OF assms(1)] nth_append)
qed

theorem run_keeps_sample_nodes_witness:
  "three_sample_alloc = Inr (projr three_sample_alloc)
   \<and> simplifier_run (projr three_sample_alloc) = Some (Inr three_sample_result)
   \<and> length (nt_rows (nodes three_sample_result)) \<ge> 3
   \<and> nt_rows (nodes three_sample_result) ! 0 = nt_rows three_sample_nodes ! 0
   \<and> nt_rows (nodes three_sample_result) ! 1 = nt_rows three_sample_nodes ! 1
   \<and> nt_rows (nodes three_sample_result) ! 2 = nt_rows three_sample_nodes ! 2"
proof -
  have a: "simplifier_alloc three_sample_nodes three_sample_edgesets one_site one_mutation [0, 1, 2] 1
             = Inr (projr three_sample_alloc)"
    by code_simp
  have b: "simplifier_run (projr three_sample_alloc) = Some (Inr three_sample_result)"
    by code_simp
  from run_keeps_sample_nodes [OF a b] a b show ?thesis
    by (simp add: three_sample_alloc_def)
qed

section \<open>The checks of \<^verbatim>\<open>simplifier_alloc\<close>\<close>







section \<open>The order of the parent times\<close>

subsection \<open>The rows written\<close>

lemma edgeset_t_eta [simp]:
  "\<lparr>es_left = es_left e, es_right = es_right e, es_parent = es_parent e, es_children = es_children e\<rparr>
     = (e :: edgeset_t)"
  by (cases e) simp


lemma edgesets_written_refl [simp]: "edgesets_written s s"
  unfolding edgesets_written_def by (rule exI [of _ "[]"]) simp



lemma edgesets_written_update [simp]:
  "edgesets_written s (s'\<lparr>merge_queue := q\<rparr>) = edgesets_written s s'"
  "edgesets_written s (s'\<lparr>segment_heap_allocated := n\<rparr>) = edgesets_written s s'"
  "edgesets_written s (s'\<lparr>overlap_counts := ocs\<rparr>) = edgesets_written s s'"
  "edgesets_written s (s'\<lparr>last_edgeset := le\<rparr>) = edgesets_written s s'"
  "edgesets_written s (s'\<lparr>ancestor_map := am\<rparr>) = edgesets_written s s'"
  "edgesets_written s (s'\<lparr>nodes := nt\<rparr>) = edgesets_written s s'"
  "edgesets_written (s\<lparr>merge_queue := q\<rparr>) s' = edgesets_written s s'"
  "edgesets_written (s\<lparr>segment_heap_allocated := n\<rparr>) s' = edgesets_written s s'"
  "edgesets_written (s\<lparr>overlap_counts := ocs\<rparr>) s' = edgesets_written s s'"
  "edgesets_written (s\<lparr>last_edgeset := le\<rparr>) s' = edgesets_written s s'"
  "edgesets_written (s\<lparr>ancestor_map := am\<rparr>) s' = edgesets_written s s'"
  "edgesets_written (s\<lparr>nodes := nt\<rparr>) s' = edgesets_written s s'"
  by (simp_all add: edgesets_written_def)











subsection \<open>The errors of the steps\<close>

















subsection \<open>The rows not yet read\<close>

















section \<open>The rows of an edgeset table\<close>

text \<open>
  Rows written one after the other from an empty table are the rows of the table: the
  second loop of the sorter and the output of the simplifier both write this way.
\<close>

lemma put_cell_take: "n \<le> length xs \<Longrightarrow> take (Suc n) (put_cell xs n v) = take n xs @ [v]"
  by (simp add: put_cell_def)

lemma put_cell_drop: "n \<le> length xs \<Longrightarrow> drop (Suc (n + k)) (put_cell xs n v) = drop (Suc (n + k)) xs"
  by (simp add: put_cell_def ac_simps)

lemma put_cell_length: "n \<le> length xs \<Longrightarrow> length (put_cell xs n v) = max (length xs) (Suc n)"
  by (auto simp: put_cell_def)

lemma put_cells_take: "n \<le> length xs \<Longrightarrow> take (n + length vs) (put_cells xs n vs) = take n xs @ vs"
  by (simp add: put_cells_def)

lemma put_cells_drop:
  "n \<le> length xs \<Longrightarrow> drop (n + length vs + k) (put_cells xs n vs) = drop (n + length vs + k) xs"
  by (simp add: put_cells_def ac_simps)

lemma put_cells_length: "n \<le> length xs \<Longrightarrow> length (put_cells xs n vs) = max (length xs) (n + length vs)"
  by (auto simp: put_cells_def)

lemma write_row_bounds: "et_bounds t \<Longrightarrow> et_bounds (write_row t e)"
  by (auto simp: et_bounds_def write_row_def put_cell_length put_cells_length)

lemma write_row_stored:
  assumes "et_bounds t"
  shows "rows_stored t (et_num_rows t) (et_total_children_length t) [e] (write_row t e)"
  using assms
  by (auto simp: rows_stored_def et_bounds_def write_row_def put_cell_def put_cells_def)

lemma rows_stored_append:
  assumes a: "rows_stored t n c es t'" and b: "rows_stored t' (n + length es) (c + length (concat (map es_children es))) es' t''"
    and n: "n \<le> length (et_left t)" "n \<le> length (et_right t)" "n \<le> length (et_parent t)"
      "n \<le> length (et_children_length t)" "c \<le> length (et_children t)"
  shows "rows_stored t n c (es @ es') t''"
proof -
  have col: "take (m + length ys) (take m xs @ ys @ drop (m + length ys) xs) @ zs
       @ drop (m + length ys + length zs) (take m xs @ ys @ drop (m + length ys) xs)
     = take m xs @ (ys @ zs) @ drop (m + (length ys + length zs)) xs"
    if "m \<le> length xs" for xs ys zs :: "'a list" and m
    using that by (simp add: ac_simps)
  from a b n show ?thesis
    unfolding rows_stored_def
    using col [of n "et_left t" "map es_left es" "map es_left es'"]
      col [of n "et_right t" "map es_right es" "map es_right es'"]
      col [of n "et_parent t" "map es_parent es" "map es_parent es'"]
      col [of n "et_children_length t" "map (\<lambda>e. length (es_children e)) es"
             "map (\<lambda>e. length (es_children e)) es'"]
      col [of c "et_children t" "concat (map es_children es)" "concat (map es_children es')"]
    by (simp add: ac_simps)
qed

lemma write_rows_bounds: "et_bounds t \<Longrightarrow> et_bounds (foldl write_row t es)"
  by (induction es arbitrary: t) (auto intro: write_row_bounds)

lemma rows_stored_Nil: "rows_stored t (et_num_rows t) (et_total_children_length t) [] t"
  by (simp add: rows_stored_def)

lemma write_rows_stored:
  assumes "et_bounds t"
  shows "rows_stored t (et_num_rows t) (et_total_children_length t) es (foldl write_row t es)"
proof (induction es rule: rev_induct)
  case Nil
  show ?case by (simp add: rows_stored_Nil)
next
  case (snoc e es)
  let ?t1 = "foldl write_row t es"
  have b1: "et_bounds ?t1" using assms by (rule write_rows_bounds)
  from snoc have n1: "et_num_rows ?t1 = et_num_rows t + length es"
    and c1: "et_total_children_length ?t1
               = et_total_children_length t + length (concat (map es_children es))"
    by (simp_all add: rows_stored_def)
  from write_row_stored [OF b1]
  have "rows_stored ?t1 (et_num_rows t + length es)
          (et_total_children_length t + length (concat (map es_children es))) [e] (write_row ?t1 e)"
    by (simp add: n1 c1)
  with snoc assms have "rows_stored t (et_num_rows t) (et_total_children_length t) (es @ [e])
      (write_row ?t1 e)"
    by (intro rows_stored_append) (simp_all add: et_bounds_def)
  then show ?case by simp
qed

lemma read_rows_cols:
  assumes "et_left t = Lp @ map es_left es @ Lr" "length Lp = j"
    and "et_right t = Rp @ map es_right es @ Rr" "length Rp = j"
    and "et_parent t = Pp @ map es_parent es @ Pr" "length Pp = j"
    and "et_children_length t = Np @ map (\<lambda>e. length (es_children e)) es @ Nr" "length Np = j"
    and "et_children t = Cp @ concat (map es_children es) @ Cr" "length Cp = off"
  shows "read_rows t (length es) j off = es"
  using assms
proof (induction es arbitrary: j off Lp Rp Pp Np Cp)
  case Nil
  then show ?case by simp
next
  case (Cons e es)
  have row: "\<lparr>es_left = et_left t ! j, es_right = et_right t ! j, es_parent = et_parent t ! j,
      es_children = take (et_children_length t ! j) (drop off (et_children t))\<rparr> = e"
    using Cons.prems by (cases e) (simp add: nth_append)
  have len: "et_children_length t ! j = length (es_children e)"
    using Cons.prems by (simp add: nth_append)
  have rest: "read_rows t (length es) (Suc j) (off + length (es_children e)) = es"
    by (rule Cons.IH [of "Lp @ [es_left e]" _ "Rp @ [es_right e]" "Pp @ [es_parent e]"
          "Np @ [length (es_children e)]" "Cp @ es_children e"])
      (use Cons.prems in simp_all)
  show ?case
    using row rest len by simp
qed

lemma rows_stored_read:
  assumes "rows_stored t 0 0 es t'"
  shows "et_rows t' = es"
proof -
  from assms have n: "et_num_rows t' = length es"
    by (simp add: rows_stored_def)
  have "read_rows t' (length es) 0 0 = es"
    by (rule read_rows_cols [of _ "[]" _ _ _ "[]" _ "[]" _ "[]" _ "[]"])
      (use assms in \<open>simp_all add: rows_stored_def\<close>)
  with n show ?thesis by (simp add: et_rows_def)
qed

lemma reset_bounds: "et_bounds (edgeset_table_reset t)"
  by (simp add: et_bounds_def edgeset_table_reset_def)

lemma rows_stored_reset:
  "rows_stored (edgeset_table_reset t) n c es t' = rows_stored t n c es t'"
  by (simp add: rows_stored_def edgeset_table_reset_def)

lemma et_rows_written:
  "et_rows (foldl write_row (edgeset_table_reset t) es) = es"
proof -
  have "rows_stored (edgeset_table_reset t) 0 0 es (foldl write_row (edgeset_table_reset t) es)"
    using write_rows_stored [OF reset_bounds, of t es] by (simp add: edgeset_table_reset_def)
  then show ?thesis by (rule rows_stored_read)
qed

lemma et_rows_counters [simp]:
  "et_rows (t\<lparr>et_total_children_length := c\<rparr>) = et_rows t"
proof -
  have "read_rows (t\<lparr>et_total_children_length := c\<rparr>) k j off = read_rows t k j off" for k j off
    by (induction k arbitrary: j off) simp_all
  then show ?thesis by (simp add: et_rows_def)
qed

lemma sorter_write_row_eq: "sorter_write_row t e = write_row t (sorted_row e)"
  by (simp add: sorter_write_row_def write_row_def sorted_row_def)

lemma sorter_write_rows_eq: "foldl sorter_write_row t es = foldl write_row t (map sorted_row es)"
  by (induction es arbitrary: t) (simp_all add: sorter_write_row_eq)

lemma sorter_read_edgesets_rows:
  assumes "sorter_read_edgesets rows t (take c (et_children t)) k j off = Inr es"
    and "off + sum_list (take k (drop j (et_children_length t))) \<le> c"
    and "c \<le> length (et_children t)"
  shows "map unsorted_row es = read_rows t k j off
     \<and> length es = k
     \<and> (\<forall>e \<in> set es. srt_time e = node_time (rows ! nat (srt_parent e))
             \<and> 0 \<le> srt_parent e \<and> srt_parent e < int (length rows))"
  using assms(1,2)
proof (induction k arbitrary: j off es)
  case 0
  then show ?case by simp
next
  case (Suc k)
  let ?len = "et_children_length t ! j"
  from Suc.prems(1) obtain es' where
      j: "j < length (et_children_length t)"
      and p: "0 \<le> et_parent t ! j" "et_parent t ! j < int (length rows)"
      and rest: "sorter_read_edgesets rows t (take c (et_children t)) k (Suc j) (off + ?len) = Inr es'"
      and es: "es = \<lparr>srt_left = et_left t ! j, srt_right = et_right t ! j,
                     srt_parent = et_parent t ! j,
                     srt_children = take ?len (drop off (take c (et_children t))),
                     srt_time = node_time (rows ! nat (et_parent t ! j))\<rparr> # es'"
    by (auto split: if_splits sum.splits)
  from j have dr: "take (Suc k) (drop j (et_children_length t))
      = ?len # take k (drop (Suc j) (et_children_length t))"
    by (simp add: Cons_nth_drop_Suc [symmetric])
  with Suc.prems(2) have bound: "off + ?len + sum_list (take k (drop (Suc j) (et_children_length t))) \<le> c"
    by simp
  then have "off + ?len \<le> c" by simp
  then have slice: "take ?len (drop off (take c (et_children t))) = take ?len (drop off (et_children t))"
    by (simp add: drop_take min_def)
  from Suc.IH [OF rest bound] es p slice show ?case
    by (simp add: unsorted_row_def)
qed

section \<open>The sorter\<close>

subsection \<open>The order of the edgesets after sorting\<close>

lemma et_rows_restore:
  "et_num_rows u = n \<Longrightarrow> et_rows (u\<lparr>et_num_rows := n, et_total_children_length := c\<rparr>) = et_rows u"
proof -
  have "read_rows (u\<lparr>et_num_rows := n, et_total_children_length := c\<rparr>) k j off = read_rows u k j off"
    for k j off
    by (induction k arbitrary: j off) simp_all
  then show "et_num_rows u = n \<Longrightarrow> ?thesis" by (simp add: et_rows_def)
qed

lemma write_rows_num_rows: "et_num_rows (foldl write_row t es) = et_num_rows t + length es"
  by (induction es arbitrary: t) (simp_all add: write_row_def)

lemma cmp_edgeset_le:
  "cmp_edgeset a b \<le> 0 \<longleftrightarrow>
     (srt_time a < srt_time b \<or> (srt_time a = srt_time b \<and> (srt_parent a < srt_parent b
        \<or> (srt_parent a = srt_parent b \<and> srt_left a \<le> srt_left b))))"
  by (auto simp: cmp_edgeset_def Let_def)

lemma sort_edgesets_result:
  assumes qs: "qsort_spec cmp_edgeset qsort_edgesets"
    and ok: "table_sorter_sort_edgesets qsort_edgesets rows t = Inr t'"
  shows "\<exists>es. et_rows t = map unsorted_row es \<and> et_rows t' = map sorted_row (qsort_edgesets es)
     \<and> (\<forall>e \<in> set es. srt_time e = node_time (rows ! nat (srt_parent e)))"
proof -
  let ?c = "et_total_children_length t"
  from ok obtain es where c: "?c \<le> length (et_children t)"
    and rd: "sorter_read_edgesets rows t (take ?c (et_children t)) (et_num_rows t) 0 0 = Inr es"
    and sum: "sum_list (take (et_num_rows t) (et_children_length t)) \<le> ?c"
    and t': "t' = (foldl sorter_write_row (edgeset_table_reset t) (qsort_edgesets es))
                    \<lparr>et_num_rows := et_num_rows t, et_total_children_length := ?c\<rparr>"
    by (auto simp: table_sorter_sort_edgesets_def split: if_splits sum.splits)
  from sorter_read_edgesets_rows [OF rd _ c] sum
  have rows: "map unsorted_row es = et_rows t" and len: "length es = et_num_rows t"
    and time: "\<forall>e \<in> set es. srt_time e = node_time (rows ! nat (srt_parent e))"
    by (simp_all add: et_rows_def)
  from qs have "mset (qsort_edgesets es) = mset es"
    by (simp add: qsort_spec_def)
  then have "length (qsort_edgesets es) = length es"
    by (rule mset_eq_length)
  with len have n: "et_num_rows (foldl write_row (edgeset_table_reset t) (map sorted_row (qsort_edgesets es)))
      = et_num_rows t"
    by (simp add: write_rows_num_rows edgeset_table_reset_def)
  have "et_rows t' = map sorted_row (qsort_edgesets es)"
    unfolding t' sorter_write_rows_eq
    by (simp only: et_rows_restore [OF n] et_rows_written)
  with rows time show ?thesis by metis
qed

subsection \<open>Insertion sort meets the contract of \<^verbatim>\<open>qsort\<close>\<close>

lemma mset_insert_cmp: "mset (insert_cmp cmp x xs) = add_mset x (mset xs)"
  by (induction xs) auto

lemma set_insert_cmp: "set (insert_cmp cmp x xs) = insert x (set xs)"
  by (induction xs) auto

lemma sorted_insert_cmp:
  assumes total: "\<And>a b. cmp a b \<le> 0 \<or> cmp b a \<le> 0"
    and trans: "\<And>a b c. cmp a b \<le> 0 \<Longrightarrow> cmp b c \<le> 0 \<Longrightarrow> cmp a c \<le> 0"
  shows "sorted_wrt (\<lambda>a b. cmp a b \<le> 0) xs \<Longrightarrow> sorted_wrt (\<lambda>a b. cmp a b \<le> 0) (insert_cmp cmp x xs)"
proof (induction xs)
  case Nil
  then show ?case by simp
next
  case (Cons y ys)
  show ?case
  proof (cases "cmp x y \<le> 0")
    case True
    with Cons.prems trans show ?thesis by auto
  next
    case False
    with total have "cmp y x \<le> 0" by blast
    with False Cons show ?thesis by (auto simp: set_insert_cmp)
  qed
qed

lemma insertion_sort_spec:
  assumes total: "\<And>a b. cmp a b \<le> 0 \<or> cmp b a \<le> 0"
    and trans: "\<And>a b c. cmp a b \<le> 0 \<Longrightarrow> cmp b c \<le> 0 \<Longrightarrow> cmp a c \<le> 0"
  shows "qsort_spec cmp (insertion_sort cmp)" and "qsort_spec cmp (reversing_sort cmp)"
proof -
  have "mset (insertion_sort cmp xs) = mset xs \<and> sorted_wrt (\<lambda>a b. cmp a b \<le> 0) (insertion_sort cmp xs)" for xs
    unfolding insertion_sort_def
    by (induction xs) (auto simp: mset_insert_cmp intro: sorted_insert_cmp [OF total trans])
  then show "qsort_spec cmp (insertion_sort cmp)" "qsort_spec cmp (reversing_sort cmp)"
    by (simp_all add: qsort_spec_def reversing_sort_def)
qed

lemma qsort_spec_edgesets:
  "qsort_spec cmp_edgeset (insertion_sort cmp_edgeset)" "qsort_spec cmp_edgeset (reversing_sort cmp_edgeset)"
  by (rule insertion_sort_spec; auto simp: cmp_edgeset_le)+

text \<open>
  C8. For every sorting function that meets the contract of \<^verbatim>\<open>qsort\<close> and all tables
  on which \<^verbatim>\<open>sort_tables\<close> returns 0: afterwards the edgeset rows are in the order of
  (time of the parent, parent, left), the children of every row ascend, and the rows are
  the rows of the input, up to the order of the rows and of the children in a row.
\<close>

theorem sort_tables_edgesets:
  assumes "qsort_spec cmp_edgeset qsort_edgesets"
    and "sort_tables qsort_edgesets qsort_sites qsort_mutations rows t sites_in mutations_in
           = Inr (t', sites', mutations')"
  shows "sorted_wrt (edgeset_le rows) (et_rows t')
     \<and> (\<forall>e \<in> set (et_rows t'). sorted (es_children e))
     \<and> mset (map row_content (et_rows t')) = mset (map row_content (et_rows t))"
proof -
  from assms(2) have "table_sorter_sort_edgesets qsort_edgesets rows t = Inr t'"
    by (auto simp: sort_tables_def Let_def split: if_splits sum.splits option.splits)
  from sort_edgesets_result [OF assms(1) this] obtain es where
      rows: "et_rows t = map unsorted_row es" and rows': "et_rows t' = map sorted_row (qsort_edgesets es)"
      and time: "\<forall>e \<in> set es. srt_time e = node_time (rows ! nat (srt_parent e))"
    by blast
  from assms(1) have perm: "mset (qsort_edgesets es) = mset es"
    and sorted: "sorted_wrt (\<lambda>a b. cmp_edgeset a b \<le> 0) (qsort_edgesets es)"
    by (simp_all add: qsort_spec_def)
  from perm have set: "set (qsort_edgesets es) = set es"
    by (rule mset_eq_setD)
  have "sorted_wrt (\<lambda>a b. edgeset_le rows (sorted_row a) (sorted_row b)) (qsort_edgesets es)"
    using sorted
  proof (rule sorted_wrt_mono_rel [rotated])
    fix a b assume "a \<in> set (qsort_edgesets es)" "b \<in> set (qsort_edgesets es)" "cmp_edgeset a b \<le> 0"
    with set time show "edgeset_le rows (sorted_row a) (sorted_row b)"
      by (auto simp: cmp_edgeset_le edgeset_le_def sorted_row_def Let_def)
  qed
  then have 1: "sorted_wrt (edgeset_le rows) (et_rows t')"
    by (simp add: rows' sorted_wrt_map)
  have 2: "\<forall>e \<in> set (et_rows t'). sorted (es_children e)"
    by (auto simp: rows' sorted_row_def)
  have eq: "row_content (sorted_row x) = row_content (unsorted_row x)" for x
    by (simp add: row_content_def sorted_row_def unsorted_row_def)
  have "mset (map row_content (et_rows t')) = image_mset (\<lambda>x. row_content (unsorted_row x)) (mset (qsort_edgesets es))"
    by (simp add: rows' eq comp_def)
  also have "\<dots> = mset (map row_content (et_rows t))"
    by (simp add: perm rows comp_def)
  finally have 3: "mset (map row_content (et_rows t')) = mset (map row_content (et_rows t))" .
  from 1 2 3 show ?thesis by blast
qed

theorem sort_tables_edgesets_witness:
  "qsort_spec cmp_edgeset (insertion_sort cmp_edgeset)
   \<and> sort_tables (insertion_sort cmp_edgeset) (insertion_sort cmp_site) (insertion_sort cmp_mutation)
        (nt_rows pruned_nodes) shuffled_edgesets None None
      = Inr (two_row_edgesets, None, None)
   \<and> et_rows two_row_edgesets
      = [\<lparr>es_left = 0, es_right = 1, es_parent = 2, es_children = [0, 1]\<rparr>,
         \<lparr>es_left = 0, es_right = 1, es_parent = 3, es_children = [2]\<rparr>]
   \<and> sorted_wrt (edgeset_le (nt_rows pruned_nodes)) (et_rows two_row_edgesets)
   \<and> list_all (\<lambda>e. sorted (es_children e)) (et_rows two_row_edgesets)
   \<and> mset (map row_content (et_rows two_row_edgesets)) = mset (map row_content (et_rows shuffled_edgesets))"
proof -
  have s: "sort_tables (insertion_sort cmp_edgeset) (insertion_sort cmp_site) (insertion_sort cmp_mutation)
        (nt_rows pruned_nodes) shuffled_edgesets None None
      = Inr (two_row_edgesets, None, None)"
    by code_simp
  have r: "et_rows two_row_edgesets
      = [\<lparr>es_left = 0, es_right = 1, es_parent = 2, es_children = [0, 1]\<rparr>,
         \<lparr>es_left = 0, es_right = 1, es_parent = 3, es_children = [2]\<rparr>]"
    by code_simp
  from sort_tables_edgesets [OF qsort_spec_edgesets(1) s] qsort_spec_edgesets(1) s r show ?thesis
    by (simp add: list_all_iff)
qed

subsection \<open>Sorting tables that are in order\<close>




lemma read_rows_length [simp]: "length (read_rows t k j off) = k"
  by (induction k arbitrary: j off) simp_all












end
